theory Spec2Isabelle
  imports Complex_Main
begin

section \<open>Arrays, errors and detector results\<close>

text \<open>
  The three scripts of \<^verbatim>\<open>training/scripts\<close> are embedded function by function.
  A numpy array is its element type tag, its shape and its elements in row-major order.
  Coordinates are real numbers: the not-a-number and infinite values of IEEE arithmetic
  and its rounding are outside the model, except for the conversion to 32-bit precision,
  whose rounding is the parameter \<open>f32\<close> of the functions that convert.
\<close>

datatype py_error = IndexError | ValueError | TypeError | FileNotFoundError | NotADirectory

datatype dtype = Float64 | Float32

record ndarray =
  dtype :: dtype
  shape :: "nat list"
  data :: "real list"

record landmark =
  lm_x :: real
  lm_y :: real
  lm_z :: real

record category =
  category_name :: string

record hand_landmarker_result =
  handedness :: "category list list"
  hand_landmarks :: "landmark list list"

record pose_landmarker_result =
  pose_landmarks :: "landmark list list"

definition SEQUENCE_LENGTH :: nat where
  "SEQUENCE_LENGTH = 30"

definition FPS_TARGET :: real where
  "FPS_TARGET = 15"

definition HAND_FEATURES :: nat where
  "HAND_FEATURES = 63"

definition POSE_LANDMARKS_COUNT :: nat where
  "POSE_LANDMARKS_COUNT = 11"

text \<open>
  \<^verbatim>\<open>USE_POSE\<close> is the module constant \<^verbatim>\<open>True\<close> in the source; the functions that read
  it take it as their first argument \<open>use_pose\<close>, so that both builds are covered.
\<close>

definition USE_POSE :: bool where
  "USE_POSE = True"

definition POSE_FEATURES :: "bool \<Rightarrow> nat" where
  "POSE_FEATURES use_pose = (if use_pose then POSE_LANDMARKS_COUNT * 3 else 0)"

definition TOTAL_FEATURES :: "bool \<Rightarrow> nat" where
  "TOTAL_FEATURES use_pose = HAND_FEATURES * 2 + POSE_FEATURES use_pose"

definition POSE_INDICES :: "nat list" where
  "POSE_INDICES = [0, 11, 12, 13, 14, 15, 16, 23, 24, 25, 26]"

subsection \<open>The numpy operations the scripts call\<close>

definition np_zeros :: "nat \<Rightarrow> ndarray" where
  "np_zeros n = \<lparr>dtype = Float64, shape = [n], data = replicate n 0\<rparr>"

text \<open>\<^verbatim>\<open>np.max\<close> of a non-empty array.\<close>

definition np_max :: "real list \<Rightarrow> real" where
  "np_max xs = foldl max (hd xs) (tl xs)"

text \<open>\<^verbatim>\<open>np.concatenate\<close> of one-dimensional arrays of 64-bit floats.\<close>

definition np_concatenate :: "ndarray list \<Rightarrow> ndarray" where
  "np_concatenate as =
     \<lparr>dtype = Float64,
      shape = [sum_list (map (\<lambda>a. length (data a)) as)],
      data = concat (map data as)\<rparr>"

definition astype_float32 :: "(real \<Rightarrow> real) \<Rightarrow> ndarray \<Rightarrow> ndarray" where
  "astype_float32 f32 a = a\<lparr>dtype := Float32, data := map f32 (data a)\<rparr>"

section \<open>Feature extraction (collect\_data.py)\<close>

definition coords_of :: "landmark list \<Rightarrow> real list list" where
  "coords_of landmarks = map (\<lambda>lm. [lm_x lm, lm_y lm, lm_z lm]) landmarks"

text \<open>\<^verbatim>\<open>coords -= base\<close>: the row \<open>base\<close> is subtracted from every row.\<close>

definition translate :: "real list \<Rightarrow> real list list \<Rightarrow> real list list" where
  "translate base coords = map (\<lambda>row. map2 (-) row base) coords"

definition scale :: "real list list \<Rightarrow> real list list" where
  "scale coords =
     (let max_val = np_max (map abs (concat coords))
      in if max_val > 1 / 1000000 then map (map (\<lambda>v. v / max_val)) coords else coords)"

definition normalize_hand_landmarks :: "landmark list option \<Rightarrow> py_error + ndarray" where
  "normalize_hand_landmarks landmarks =
     (case landmarks of
        None \<Rightarrow> Inr (np_zeros HAND_FEATURES)
      | Some lms \<Rightarrow>
          (case coords_of lms of
             [] \<Rightarrow> Inl IndexError
           | base # rest \<Rightarrow>
               (let coords = scale (translate base (base # rest))
                in Inr \<lparr>dtype = Float64, shape = [length (concat coords)],
                        data = concat coords\<rparr>)))"

definition extract_pose_subset :: "bool \<Rightarrow> landmark list option \<Rightarrow> ndarray" where
  "extract_pose_subset use_pose pose_lms =
     (case pose_lms of
        None \<Rightarrow> np_zeros (POSE_FEATURES use_pose)
      | Some pl \<Rightarrow>
          (let features =
                 concat (map (\<lambda>idx. if idx < length pl
                                     then [lm_x (pl ! idx), lm_y (pl ! idx), lm_z (pl ! idx)]
                                     else [0, 0, 0])
                             (take POSE_LANDMARKS_COUNT POSE_INDICES))
           in \<lparr>dtype = Float64, shape = [length features], data = features\<rparr>))"

text \<open>
  The loop of \<^verbatim>\<open>extract_all_features\<close> over \<^verbatim>\<open>enumerate(hand_result.handedness)\<close>:
  \<open>i\<close> is the index, the pair is \<^verbatim>\<open>(left_hand, right_hand)\<close>. Reading
  \<^verbatim>\<open>handedness[0]\<close> of an empty list or \<^verbatim>\<open>hand_landmarks[i]\<close> out of range raises.
\<close>

fun hands_loop ::
  "nat \<Rightarrow> category list list \<Rightarrow> landmark list list \<Rightarrow>
   landmark list option \<times> landmark list option \<Rightarrow>
   py_error + (landmark list option \<times> landmark list option)" where
  "hands_loop i [] hl slots = Inr slots"
| "hands_loop i (h # hs) hl (left_hand, right_hand) =
     (case h of
        [] \<Rightarrow> Inl IndexError
      | c # _ \<Rightarrow>
          if i < length hl then
            (if category_name c = ''Left''
             then hands_loop (Suc i) hs hl (left_hand, Some (hl ! i))
             else hands_loop (Suc i) hs hl (Some (hl ! i), right_hand))
          else Inl IndexError)"

definition resolve_hands ::
  "hand_landmarker_result option \<Rightarrow>
   py_error + (landmark list option \<times> landmark list option)" where
  "resolve_hands hand_result =
     (case hand_result of
        None \<Rightarrow> Inr (None, None)
      | Some hr \<Rightarrow>
          if hand_landmarks hr \<noteq> []
          then hands_loop 0 (handedness hr) (hand_landmarks hr) (None, None)
          else Inr (None, None))"

definition first_pose :: "pose_landmarker_result option \<Rightarrow> landmark list option" where
  "first_pose pose_result =
     (case pose_result of
        None \<Rightarrow> None
      | Some pr \<Rightarrow> (case pose_landmarks pr of [] \<Rightarrow> None | p # _ \<Rightarrow> Some p))"

definition extract_all_features ::
  "bool \<Rightarrow> (real \<Rightarrow> real) \<Rightarrow> hand_landmarker_result option \<Rightarrow>
   pose_landmarker_result option \<Rightarrow> py_error + ndarray" where
  "extract_all_features use_pose f32 hand_result pose_result =
     (case resolve_hands hand_result of
        Inl e \<Rightarrow> Inl e
      | Inr (left_hand, right_hand) \<Rightarrow>
          (case normalize_hand_landmarks left_hand of
             Inl e \<Rightarrow> Inl e
           | Inr left_features \<Rightarrow>
               (case normalize_hand_landmarks right_hand of
                  Inl e \<Rightarrow> Inl e
                | Inr right_features \<Rightarrow>
                    (let features = np_concatenate [left_features, right_features];
                         features' =
                           (if use_pose
                            then np_concatenate
                                   [features, extract_pose_subset use_pose (first_pose pose_result)]
                            else features)
                     in Inr (astype_float32 f32 features')))))"

text \<open>
  What the detector delivers (spec, data model): every hand is a set of exactly 21
  landmarks and carries one handedness entry with at least one category.
\<close>

definition hands_ok :: "hand_landmarker_result option \<Rightarrow> bool" where
  "hands_ok hand_result =
     (case hand_result of
        None \<Rightarrow> True
      | Some hr \<Rightarrow>
          length (handedness hr) = length (hand_landmarks hr) \<and>
          list_all (\<lambda>h. h \<noteq> []) (handedness hr) \<and>
          list_all (\<lambda>l. length l = 21) (hand_landmarks hr))"

text \<open>
  The wrist-relative coordinates of a hand, flattened landmark by landmark, each landmark
  as its x, y and z: what the spec calls the translated coordinates.
\<close>

definition translated :: "landmark list \<Rightarrow> real list" where
  "translated lms =
     concat (map (\<lambda>lm. [lm_x lm - lm_x (hd lms), lm_y lm - lm_y (hd lms),
                         lm_z lm - lm_z (hd lms)]) lms)"

definition flat_hand :: "landmark list" where
  "flat_hand = map (\<lambda>i. \<lparr>lm_x = real i / 10, lm_y = 1 / 2, lm_z = 0\<rparr>) [0..<21]"

text \<open>The label the loop reads from a handedness entry: \<^verbatim>\<open>handedness[0].category_name\<close>.\<close>

definition hand_label :: "category list \<Rightarrow> string" where
  "hand_label h = category_name (hd h)"

text \<open>
  The value of the last tagged entry whose tag satisfies \<open>P\<close>, or the default when there
  is none: the specification of a slot that later detections overwrite.
\<close>

definition last_where :: "('a \<Rightarrow> bool) \<Rightarrow> ('a \<times> 'b) list \<Rightarrow> 'b option \<Rightarrow> 'b option" where
  "last_where P tagged dflt =
     (case filter (\<lambda>t. P (fst t)) tagged of [] \<Rightarrow> dflt | t # ts \<Rightarrow> Some (snd (last (t # ts))))"

text \<open>Test inputs: a hand shifted along x, and a frame of three detections.\<close>

definition hand_at :: "real \<Rightarrow> landmark list" where
  "hand_at d = map (\<lambda>lm. lm\<lparr>lm_x := lm_x lm + d\<rparr>) flat_hand"

definition mirror_frame :: hand_landmarker_result where
  "mirror_frame =
     \<lparr>handedness = [[\<lparr>category_name = ''Left''\<rparr>], [\<lparr>category_name = ''Right''\<rparr>],
                    [\<lparr>category_name = ''Left''\<rparr>]],
      hand_landmarks = [hand_at 0, hand_at 1, hand_at 2]\<rparr>"

section \<open>Strings and files\<close>

text \<open>
  The string operations of Python that the scripts call. Characters are bytes and the
  models cover ASCII: \<^verbatim>\<open>strip\<close> removes ASCII whitespace, \<^verbatim>\<open>lower\<close> maps A to Z,
  and \<^verbatim>\<open>int\<close> reads an optional sign and decimal digits between whitespace. The
  underscore separators and the non-ASCII digits and spaces that Python also accepts are
  not modelled.
\<close>

definition is_space :: "char \<Rightarrow> bool" where
  "is_space c = (let n = (of_char c :: nat) in (9 \<le> n \<and> n \<le> 13) \<or> (28 \<le> n \<and> n \<le> 32))"

definition is_digit :: "char \<Rightarrow> bool" where
  "is_digit c = (let n = (of_char c :: nat) in 48 \<le> n \<and> n \<le> 57)"

definition py_strip :: "string \<Rightarrow> string" where
  "py_strip s = rev (dropWhile is_space (rev (dropWhile is_space s)))"

definition py_lower :: "string \<Rightarrow> string" where
  "py_lower s =
     map (\<lambda>c. if 65 \<le> (of_char c :: nat) \<and> (of_char c :: nat) \<le> 90
               then char_of ((of_char c :: nat) + 32) else c) s"

definition endswith :: "string \<Rightarrow> string \<Rightarrow> bool" where
  "endswith s suffix =
     (length suffix \<le> length s \<and> drop (length s - length suffix) s = suffix)"

text \<open>\<^verbatim>\<open>s.replace(old, new)\<close> for a non-empty \<open>old\<close>: every occurrence, left to right.\<close>

fun py_replace :: "string \<Rightarrow> string \<Rightarrow> string \<Rightarrow> string" where
  "py_replace old new [] = []"
| "py_replace old new (c # cs) =
     (if old \<noteq> [] \<and> take (length old) (c # cs) = old
      then new @ py_replace old new (drop (length old - 1) cs)
      else c # py_replace old new cs)"

definition digits_value :: "string \<Rightarrow> int" where
  "digits_value ds = foldl (\<lambda>a c. 10 * a + (int (of_char c) - 48)) 0 ds"

definition py_int :: "string \<Rightarrow> py_error + int" where
  "py_int s =
     (let t = py_strip s;
          signed = (case t of
                      [] \<Rightarrow> (1, [])
                    | c # r \<Rightarrow> if c = CHR ''-'' then (- 1, r)
                               else if c = CHR ''+'' then (1, r) else (1, t))
      in if snd signed \<noteq> [] \<and> list_all is_digit (snd signed)
         then Inr (fst signed * digits_value (snd signed))
         else Inl ValueError)"

definition digit_char :: "nat \<Rightarrow> char" where
  "digit_char n = ''0123456789'' ! (n mod 10)"

fun str_nat :: "nat \<Rightarrow> string" where
  "str_nat n =
     (if n < 10 then [digit_char n]
      else str_nat (n div 10) @ [digit_char (n mod 10)])"

text \<open>\<^verbatim>\<open>str(i)\<close>, as the f-string \<^verbatim>\<open>f"{sample_num}.npy"\<close> formats the index.\<close>

definition py_str :: "int \<Rightarrow> string" where
  "py_str i = (if i < 0 then CHR ''-'' # str_nat (nat (- i)) else str_nat (nat i))"

definition py_max :: "int list \<Rightarrow> int" where
  "py_max xs = foldl max (hd xs) (tl xs)"

text \<open>
  The data directory: \<open>None\<close> when it does not exist, else its entries in the order
  \<^verbatim>\<open>os.listdir\<close> returns them. A label directory lists its files the same way, each
  file with the array \<^verbatim>\<open>np.load\<close> reads from it. A directory is identified by its
  label; files that hold no array are outside the model.
\<close>

type_synonym directory = "(string \<times> ndarray) list"

datatype node = File | Dir directory

type_synonym filesystem = "(string \<times> node) list option"

definition fs_lookup :: "filesystem \<Rightarrow> string \<Rightarrow> node option" where
  "fs_lookup fs label = (case fs of None \<Rightarrow> None | Some entries \<Rightarrow> map_of entries label)"

fun put :: "'k \<Rightarrow> 'v \<Rightarrow> ('k \<times> 'v) list \<Rightarrow> ('k \<times> 'v) list" where
  "put k v [] = [(k, v)]"
| "put k v ((k', v') # rest) = (if k' = k then (k, v) # rest else (k', v') # put k v rest)"

definition fs_put :: "string \<Rightarrow> node \<Rightarrow> filesystem \<Rightarrow> filesystem" where
  "fs_put label n fs = Some (put label n (case fs of None \<Rightarrow> [] | Some entries \<Rightarrow> entries))"

text \<open>
  \<^verbatim>\<open>max(int(f.replace('.npy', '')) for f in existing)\<close>: the first name that is no
  integer raises.
\<close>

fun sample_numbers :: "string list \<Rightarrow> py_error + int list" where
  "sample_numbers [] = Inr []"
| "sample_numbers (f # fs) =
     (case py_int (py_replace ''.npy'' '''' f) of
        Inl e \<Rightarrow> Inl e
      | Inr n \<Rightarrow> (case sample_numbers fs of Inl e \<Rightarrow> Inl e | Inr ns \<Rightarrow> Inr (n # ns)))"

definition get_next_sample_number :: "string \<Rightarrow> filesystem \<Rightarrow> py_error + (int \<times> filesystem)" where
  "get_next_sample_number label_dir fs =
     (case fs_lookup fs label_dir of
        None \<Rightarrow> Inr (0, fs_put label_dir (Dir []) fs)
      | Some File \<Rightarrow> Inl NotADirectory
      | Some (Dir d) \<Rightarrow>
          (let existing = filter (\<lambda>f. endswith f ''.npy'') (map fst d)
           in if existing = [] then Inr (0, fs)
              else (case sample_numbers existing of
                      Inl e \<Rightarrow> Inl e
                    | Inr ns \<Rightarrow> Inr (py_max ns + 1, fs))))"

definition sample_name :: "int \<Rightarrow> string" where
  "sample_name sample_num = py_str sample_num @ ''.npy''"

definition three_samples :: filesystem where
  "three_samples =
     Some [(''a'', Dir [(''0.npy'', np_zeros 1), (''3.npy'', np_zeros 1),
                        (''notes.txt'', np_zeros 1), (''1.npy'', np_zeros 1)])]"

section \<open>Sequence recorder (the main loop of collect\_data.py)\<close>

text \<open>
  \<^verbatim>\<open>np.array\<close> of a list of arrays: arrays of one shape are stacked along a new first
  axis, arrays of different shapes cannot form an array and the call raises.
\<close>

definition np_array :: "ndarray list \<Rightarrow> py_error + ndarray" where
  "np_array as =
     (case as of
        [] \<Rightarrow> Inr \<lparr>dtype = Float64, shape = [0], data = []\<rparr>
      | a # rest \<Rightarrow>
          if list_all (\<lambda>b. shape b = shape a) rest
          then Inr \<lparr>dtype = (if list_all (\<lambda>b. dtype b = Float32) as then Float32 else Float64),
                    shape = length as # shape a,
                    data = concat (map data as)\<rparr>
          else Inl ValueError)"

text \<open>\<^verbatim>\<open>np.save\<close> into a label directory: a file of that name is replaced.\<close>

definition np_save :: "string \<Rightarrow> string \<Rightarrow> ndarray \<Rightarrow> filesystem \<Rightarrow> py_error + filesystem" where
  "np_save label_dir filename arr fs =
     (case fs_lookup fs label_dir of
        Some (Dir d) \<Rightarrow> Inr (fs_put label_dir (Dir (put filename arr d)) fs)
      | Some File \<Rightarrow> Inl NotADirectory
      | None \<Rightarrow> Inl FileNotFoundError)"

text \<open>
  The local variables of \<^verbatim>\<open>main\<close> that the loop updates, and the data directory on
  disk. Display, drawing and the statistics printout change none of them and are left
  out.
\<close>

record recorder =
  current_label :: "string option"
  is_recording :: bool
  current_sequence :: "ndarray list"
  last_frame_time :: real
  show_debug_lines :: bool
  frame_timestamp :: nat
  samples_collected :: "string \<rightharpoonup> nat"
  disk :: filesystem

text \<open>
  What one pass of the loop reads from outside: whether the camera delivered a frame, the
  detections on it, the clock when the recording logic runs, the key
  \<^verbatim>\<open>cv2.waitKey(1) & 0xFF\<close> (255 when no key is pressed), the clock when the space key
  starts a recording, and the line that \<^verbatim>\<open>input()\<close> returns after key 0.
\<close>

record tick =
  ret :: bool
  detected_hands :: "hand_landmarker_result option"
  detected_pose :: "pose_landmarker_result option"
  clock :: real
  key :: nat
  start_clock :: real
  typed_line :: string

datatype 'a flow = Continue 'a | Break 'a

definition frame_delay :: real where
  "frame_delay = 1 / FPS_TARGET"

text \<open>Truth value of \<^verbatim>\<open>current_label\<close>: neither \<^verbatim>\<open>None\<close> nor the empty string.\<close>

definition label_set :: "string option \<Rightarrow> bool" where
  "label_set l = (case l of None \<Rightarrow> False | Some s \<Rightarrow> s \<noteq> [])"

definition save_sequence :: "recorder \<Rightarrow> py_error + recorder" where
  "save_sequence s =
     (case current_label s of
        None \<Rightarrow> Inl TypeError
      | Some label \<Rightarrow>
          (case get_next_sample_number label (disk s) of
             Inl e \<Rightarrow> Inl e
           | Inr (sample_num, fs) \<Rightarrow>
               (case np_array (current_sequence s) of
                  Inl e \<Rightarrow> Inl e
                | Inr sequence_array \<Rightarrow>
                    (case np_save label (sample_name sample_num) sequence_array fs of
                       Inl e \<Rightarrow> Inl e
                     | Inr fs' \<Rightarrow>
                         Inr (s\<lparr>samples_collected :=
                                   (samples_collected s)
                                     (label \<mapsto> (case samples_collected s label of
                                                    None \<Rightarrow> 0 | Some c \<Rightarrow> c) + 1),
                                 is_recording := False,
                                 current_sequence := [],
                                 disk := fs'\<rparr>)))))"

definition recording_logic ::
  "bool \<Rightarrow> (real \<Rightarrow> real) \<Rightarrow> tick \<Rightarrow> recorder \<Rightarrow> py_error + recorder" where
  "recording_logic use_pose f32 t s =
     (if is_recording s then
        (let current_time = clock t in
         if current_time - last_frame_time s \<ge> frame_delay then
           (case extract_all_features use_pose f32 (detected_hands t) (detected_pose t) of
              Inl e \<Rightarrow> Inl e
            | Inr features \<Rightarrow>
                (let s' = s\<lparr>current_sequence := current_sequence s @ [features],
                            last_frame_time := current_time\<rparr>
                 in if length (current_sequence s') \<ge> SEQUENCE_LENGTH
                    then save_sequence s' else Inr s'))
         else Inr s)
      else Inr s)"

definition key_handling :: "tick \<Rightarrow> recorder \<Rightarrow> recorder flow" where
  "key_handling t s =
     (if key t = 113 then Break s
      else if key t = 32 then
        (if label_set (current_label s) then
           (if \<not> is_recording s
            then Continue (s\<lparr>is_recording := True, current_sequence := [],
                             last_frame_time := start_clock t\<rparr>)
            else Continue (s\<lparr>is_recording := False, current_sequence := []\<rparr>))
         else Continue s)
      else if key t = 100 then Continue (s\<lparr>show_debug_lines := \<not> show_debug_lines s\<rparr>)
      else if key t = 115 then Continue s
      else if key t = 48 then
        (let gesture = py_replace '' '' ''_'' (py_lower (py_strip (typed_line t)))
         in if gesture \<noteq> [] then Continue (s\<lparr>current_label := Some gesture\<rparr>)
            else Continue s)
      else if 97 \<le> key t \<and> key t \<le> 122 then
        Continue (s\<lparr>current_label := Some [char_of (key t)],
                    is_recording := False, current_sequence := []\<rparr>)
      else Continue s)"

text \<open>One pass of \<^verbatim>\<open>while True\<close>.\<close>

definition iteration ::
  "bool \<Rightarrow> (real \<Rightarrow> real) \<Rightarrow> tick \<Rightarrow> recorder \<Rightarrow> py_error + recorder flow" where
  "iteration use_pose f32 t s =
     (if \<not> ret t then Inr (Continue s)
      else
        (let s1 = s\<lparr>frame_timestamp := frame_timestamp s + 33\<rparr> in
         case recording_logic use_pose f32 t s1 of
           Inl e \<Rightarrow> Inl e
         | Inr s2 \<Rightarrow> Inr (key_handling t s2)))"

text \<open>The loop on the inputs of its first passes: it ends at \<^verbatim>\<open>break\<close> or at an exception.\<close>

fun run :: "bool \<Rightarrow> (real \<Rightarrow> real) \<Rightarrow> tick list \<Rightarrow> recorder \<Rightarrow> py_error + recorder" where
  "run use_pose f32 [] s = Inr s"
| "run use_pose f32 (t # ts) s =
     (case iteration use_pose f32 t s of
        Inl e \<Rightarrow> Inl e
      | Inr (Break s') \<Rightarrow> Inr s'
      | Inr (Continue s') \<Rightarrow> run use_pose f32 ts s')"

text \<open>
  Vocabulary for the recorder's properties. A frame tick is a pass with a camera frame,
  well-formed detections and no key pressed; a space tick is a pass with a camera frame
  and the space key, which starts a recording or cancels the one in progress. \<open>captured\<close> lists the ticks that the rate limit lets through,
  \<open>last_capture\<close> is the time of the last of them, and \<open>spaced\<close> says that every tick
  comes at least one sampling interval after the one before.
\<close>

definition frame_tick :: "tick \<Rightarrow> bool" where
  "frame_tick t = (ret t \<and> key t = 255 \<and> hands_ok (detected_hands t))"

definition space_tick :: "tick \<Rightarrow> bool" where
  "space_tick t = (ret t \<and> key t = 32)"

definition features_of :: "bool \<Rightarrow> (real \<Rightarrow> real) \<Rightarrow> tick \<Rightarrow> ndarray" where
  "features_of use_pose f32 t =
     projr (extract_all_features use_pose f32 (detected_hands t) (detected_pose t))"

fun captured :: "real \<Rightarrow> tick list \<Rightarrow> tick list" where
  "captured last_time [] = []"
| "captured last_time (t # ts) =
     (if clock t - last_time \<ge> frame_delay then t # captured (clock t) ts
      else captured last_time ts)"

fun last_capture :: "real \<Rightarrow> tick list \<Rightarrow> real" where
  "last_capture last_time [] = last_time"
| "last_capture last_time (t # ts) =
     (if clock t - last_time \<ge> frame_delay then last_capture (clock t) ts
      else last_capture last_time ts)"

fun spaced :: "real \<Rightarrow> tick list \<Rightarrow> bool" where
  "spaced last_time [] = True"
| "spaced last_time (t # ts) = (clock t - last_time \<ge> frame_delay \<and> spaced (clock t) ts)"

text \<open>The files persisted under a label.\<close>

definition label_files :: "filesystem \<Rightarrow> string \<Rightarrow> directory" where
  "label_files fs label = (case fs_lookup fs label of Some (Dir d) \<Rightarrow> d | _ \<Rightarrow> [])"

text \<open>Test inputs: an idle recorder with label a on an empty disk, and a pass at time \<open>n / 10\<close> with key \<open>k\<close>.\<close>

definition idle_a :: recorder where
  "idle_a = \<lparr>current_label = Some ''a'', is_recording = False, current_sequence = [],
             last_frame_time = 0, show_debug_lines = True, frame_timestamp = 0,
             samples_collected = Map.empty, disk = None\<rparr>"

definition tick_at :: "nat \<Rightarrow> nat \<Rightarrow> tick" where
  "tick_at k n = \<lparr>ret = True, detected_hands = None, detected_pose = None,
                  clock = real n / 10, key = k, start_clock = real n / 10, typed_line = []\<rparr>"

text \<open>Test input: a recording under label a during which key 0 renames the label.\<close>

definition relabel_tick :: tick where
  "relabel_tick = (tick_at 48 11)\<lparr>typed_line := ''hello''\<rparr>"

definition relabel_run :: "tick list" where
  "relabel_run =
     tick_at 32 0 # map (tick_at 255) [1..<11] @ relabel_tick # map (tick_at 255) [12..<31]"

text \<open>
  Test input: a recording of 29 captured frames, then a pass one tenth of a second later
  in which the space key is pressed.
\<close>

definition late_cancel_run :: "tick list" where
  "late_cancel_run = tick_at 32 0 # map (tick_at 255) [1..<30] @ [tick_at 32 30]"

section \<open>Dataset loader (train\_model.py)\<close>

text \<open>
  \<^verbatim>\<open>sorted\<close> on names: strings compare character by character by code, a proper prefix
  comes first. The names of one directory are distinct.
\<close>

fun str_less :: "string \<Rightarrow> string \<Rightarrow> bool" where
  "str_less [] [] = False"
| "str_less [] (b # bs) = True"
| "str_less (a # as) [] = False"
| "str_less (a # as) (b # bs) =
     ((of_char a :: nat) < of_char b \<or> (a = b \<and> str_less as bs))"

fun insert_name :: "string \<Rightarrow> string list \<Rightarrow> string list" where
  "insert_name x [] = [x]"
| "insert_name x (y # ys) = (if str_less y x then y # insert_name x ys else x # y # ys)"

definition py_sorted :: "string list \<Rightarrow> string list" where
  "py_sorted names = foldr insert_name names []"

definition npy_files :: "directory \<Rightarrow> directory" where
  "npy_files d = filter (\<lambda>f. endswith (fst f) ''.npy'') d"

text \<open>The three accumulators of \<^verbatim>\<open>load_data\<close>: sequences, labels and num\_features.\<close>

type_synonym loader_state = "ndarray list \<times> string list \<times> nat option"

text \<open>The body of the inner loop, for one loaded file.\<close>

definition load_file :: "string \<Rightarrow> ndarray \<Rightarrow> loader_state \<Rightarrow> loader_state" where
  "load_file label sequence st =
     (case st of (sequences, labels, num_features) \<Rightarrow>
        (let num_features' =
               (if num_features = None \<and> length (shape sequence) = 2
                then Some (shape sequence ! 1) else num_features)
         in if length (shape sequence) = 2 \<and> shape sequence ! 0 = SEQUENCE_LENGTH
            then (sequences @ [sequence], labels @ [label], num_features')
            else (sequences, labels, num_features')))"

text \<open>The body of the outer loop: an entry that is no directory is passed over.\<close>

definition load_label :: "(string \<times> node) list \<Rightarrow> string \<Rightarrow> loader_state \<Rightarrow> loader_state" where
  "load_label entries label st =
     (case map_of entries label of
        Some (Dir d) \<Rightarrow> fold (\<lambda>f. load_file label (snd f)) (npy_files d) st
      | _ \<Rightarrow> st)"

definition load_data ::
  "filesystem \<Rightarrow> py_error + (ndarray \<times> string list \<times> nat option) option" where
  "load_data fs =
     (case fs of
        None \<Rightarrow> Inr None
      | Some entries \<Rightarrow>
          (case fold (load_label entries) (py_sorted (map fst entries)) ([], [], None) of
             (sequences, labels, num_features) \<Rightarrow>
               if length sequences = 0 then Inr None
               else (case np_array sequences of
                       Inl e \<Rightarrow> Inl e
                     | Inr X \<Rightarrow> Inr (Some (X, labels, num_features)))))"

text \<open>
  Vocabulary for the loader's properties: the arrays the loader reads, each with its label,
  in the order it reads them; the ones it keeps; and the width of the first that has two
  dimensions.
\<close>

definition files_of :: "(string \<times> node) list \<Rightarrow> string \<Rightarrow> (string \<times> ndarray) list" where
  "files_of entries label =
     (case map_of entries label of
        Some (Dir d) \<Rightarrow> map (\<lambda>f. (label, snd f)) (npy_files d)
      | _ \<Rightarrow> [])"

definition loaded :: "filesystem \<Rightarrow> (string \<times> ndarray) list" where
  "loaded fs =
     (case fs of
        None \<Rightarrow> []
      | Some entries \<Rightarrow> concat (map (files_of entries) (py_sorted (map fst entries))))"

definition accepted :: "ndarray \<Rightarrow> bool" where
  "accepted a = (length (shape a) = 2 \<and> shape a ! 0 = 30)"

definition accepted_samples :: "filesystem \<Rightarrow> (string \<times> ndarray) list" where
  "accepted_samples fs = filter (\<lambda>p. accepted (snd p)) (loaded fs)"

definition detected_features :: "filesystem \<Rightarrow> nat option" where
  "detected_features fs =
     map_option (\<lambda>a. shape a ! 1) (List.find (\<lambda>a. length (shape a) = 2) (map snd (loaded fs)))"

text \<open>Test inputs: arrays of zeros of a given shape, and three datasets of one label.\<close>

definition zeros2 :: "nat \<Rightarrow> nat \<Rightarrow> ndarray" where
  "zeros2 rows cols = \<lparr>dtype = Float32, shape = [rows, cols], data = replicate (rows * cols) 0\<rparr>"

definition five_and_one :: filesystem where
  "five_and_one =
     Some [(''a'', Dir [(''0.npy'', zeros2 30 159), (''1.npy'', zeros2 30 159),
                        (''2.npy'', zeros2 10 159), (''3.npy'', zeros2 30 159),
                        (''4.npy'', zeros2 30 159), (''5.npy'', zeros2 30 159)])]"

definition two_widths :: filesystem where
  "two_widths = Some [(''a'', Dir [(''0.npy'', zeros2 30 159), (''1.npy'', zeros2 30 200)])]"

definition wide_first :: filesystem where
  "wide_first =
     Some [(''a'', Dir [(''0.npy'', zeros2 10 200), (''1.npy'', zeros2 30 159),
                        (''2.npy'', zeros2 30 159)])]"

section \<open>Checkpoints of the training loop (train\_model.py)\<close>

text \<open>
  The epoch loop of \<^verbatim>\<open>main\<close>. Training and evaluation are outside the model: an epoch
  is given by the weights the model holds after \<^verbatim>\<open>train_epoch\<close> and the validation
  accuracy \<^verbatim>\<open>evaluate\<close> measures on them. The state is the model's weights, the two
  counters, and the file \<^verbatim>\<open>sign_model_best.pt\<close>, absent or holding weights.
\<close>

definition EPOCHS :: nat where
  "EPOCHS = 100"

definition patience :: nat where
  "patience = 20"

record 'w training =
  model :: 'w
  best_val_acc :: real
  patience_counter :: nat
  best_pt :: "'w option"

fun epoch_loop :: "('w \<times> real) list \<Rightarrow> 'w training \<Rightarrow> 'w training" where
  "epoch_loop [] st = st"
| "epoch_loop ((w, val_acc) # rest) st =
     (let st1 = st\<lparr>model := w\<rparr>;
          st2 = (if val_acc > best_val_acc st1
                 then st1\<lparr>best_val_acc := val_acc, patience_counter := 0, best_pt := Some w\<rparr>
                 else st1\<lparr>patience_counter := patience_counter st1 + 1\<rparr>)
      in if patience_counter st2 \<ge> patience then st2 else epoch_loop rest st2)"

text \<open>
  From the creation of the model to the final save: \<open>init\<close> are the initial weights,
  \<open>existing\<close> is \<^verbatim>\<open>sign_model_best.pt\<close> as found on disk, \<open>epochs\<close> are the epochs in
  order. The result is the content written to \<^verbatim>\<open>sign_model.pt\<close>; loading a missing
  checkpoint raises.
\<close>

definition train_and_save :: "'w \<Rightarrow> 'w option \<Rightarrow> ('w \<times> real) list \<Rightarrow> py_error + 'w" where
  "train_and_save init existing epochs =
     (let st = epoch_loop (take EPOCHS epochs)
                 \<lparr>model = init, best_val_acc = 0, patience_counter = 0, best_pt = existing\<rparr>
      in case best_pt st of
           None \<Rightarrow> Inl FileNotFoundError
         | Some best \<Rightarrow> Inr best)"

text \<open>Test input: a run whose validation accuracy is 0 in every epoch; weights are numbered.\<close>

definition zero_accuracy_run :: "(nat \<times> real) list" where
  "zero_accuracy_run = map (\<lambda>i. (i, 0)) [1..<101]"

section \<open>Exporter (convert\_to\_onnx.py)\<close>

record model_config =
  cfg_sequence_length :: nat
  cfg_num_features :: nat
  cfg_num_classes :: nat
  cfg_labels :: "string list"

datatype dim = Fixed nat | Symbolic string

text \<open>
  An interchange graph, as far as the script looks at it: the declared dimensions of its
  input and output, and whether \<^verbatim>\<open>onnx.checker.check_model\<close> accepts it.
\<close>

record onnx_graph =
  input_dims :: "dim list"
  output_dims :: "dim list"
  checker_accepts :: bool

text \<open>The files the script reads and writes; the weights file is present or not.\<close>

record exporter_files =
  model_config_json :: "model_config option"
  labels_json :: "string list option"
  sign_model_pt :: bool
  sign_model_onnx :: "onnx_graph option"
  sign_model_onnx_data :: bool
  public_lstm_model_onnx :: "onnx_graph option"
  public_lstm_labels_json :: "string list option"
  public_lstm_config_json :: "model_config option"

text \<open>
  What the libraries do, outside the model: whether the saved weights fit the model built
  from the config, the graph that \<^verbatim>\<open>torch.onnx.export\<close> writes and whether it writes
  external data beside it, and whether the \<^verbatim>\<open>onnx\<close> package can be imported.
\<close>

record export_env =
  weights_fit :: bool
  exported :: onnx_graph
  external_data :: bool
  onnx_installed :: bool

datatype outcome = Finished | Returned | Raised py_error

text \<open>
  \<^verbatim>\<open>main\<close>, in the order of the script: load config and weights, export, embed external
  data, copy the three files to the public folder, then verify. Both \<^verbatim>\<open>try\<close> blocks
  catch every exception and print a warning, so the verification changes neither the
  files nor the outcome.
\<close>

definition embed_external_data :: "export_env \<Rightarrow> exporter_files \<Rightarrow> exporter_files" where
  "embed_external_data env fs =
     (if sign_model_onnx_data fs \<and> onnx_installed env
      then fs\<lparr>sign_model_onnx_data := False\<rparr> else fs)"

definition verify_exported :: "export_env \<Rightarrow> exporter_files \<Rightarrow> bool" where
  "verify_exported env fs =
     (onnx_installed env \<and>
      (case public_lstm_model_onnx fs of None \<Rightarrow> False | Some g \<Rightarrow> checker_accepts g))"

definition convert_main :: "export_env \<Rightarrow> exporter_files \<Rightarrow> outcome \<times> exporter_files" where
  "convert_main env fs =
     (case model_config_json fs of
        None \<Rightarrow> (Returned, fs)
      | Some config \<Rightarrow>
          if \<not> sign_model_pt fs then (Returned, fs)
          else if \<not> weights_fit env then (Raised ValueError, fs)
          else
            (let fs1 = fs\<lparr>sign_model_onnx := Some (exported env),
                          sign_model_onnx_data := external_data env\<rparr>;
                 fs2 = embed_external_data env fs1;
                 fs3 = fs2\<lparr>public_lstm_model_onnx := sign_model_onnx fs2\<rparr>
             in case labels_json fs3 of
                  None \<Rightarrow> (Raised FileNotFoundError, fs3)
                | Some ls \<Rightarrow>
                    (let fs4 = fs3\<lparr>public_lstm_labels_json := Some ls,
                                   public_lstm_config_json := Some config\<rparr>;
                         validated = verify_exported env fs4
                     in (Finished, fs4))))"

text \<open>
  The check the spec asks of the exporter: the declared input is (batch, sequence length,
  features) and the declared output is (batch, classes), as the config says.
\<close>

definition spec_shapes_match :: "model_config \<Rightarrow> onnx_graph \<Rightarrow> bool" where
  "spec_shapes_match config g =
     ((case input_dims g of
         [Symbolic b, Fixed s, Fixed f] \<Rightarrow>
           s = cfg_sequence_length config \<and> f = cfg_num_features config
       | _ \<Rightarrow> False) \<and>
      (case output_dims g of
         [Symbolic b, Fixed c] \<Rightarrow> c = cfg_num_classes config
       | _ \<Rightarrow> False))"

text \<open>
  Test input: a config for 159 features and two classes, trained files in place, and an
  export whose graph declares 20 features and is rejected by the checker.
\<close>

definition config_159 :: model_config where
  "config_159 = \<lparr>cfg_sequence_length = 30, cfg_num_features = 159, cfg_num_classes = 2,
                 cfg_labels = [''a'', ''b'']\<rparr>"

definition trained_files :: exporter_files where
  "trained_files =
     \<lparr>model_config_json = Some config_159, labels_json = Some [''a'', ''b''],
      sign_model_pt = True, sign_model_onnx = None, sign_model_onnx_data = False,
      public_lstm_model_onnx = None, public_lstm_labels_json = None,
      public_lstm_config_json = None\<rparr>"

definition graph_20 :: onnx_graph where
  "graph_20 = \<lparr>input_dims = [Symbolic ''batch_size'', Fixed 30, Fixed 20],
               output_dims = [Symbolic ''batch_size'', Fixed 2], checker_accepts = False\<rparr>"

definition mismatched_export :: export_env where
  "mismatched_export = \<lparr>weights_fit = True, exported = graph_20, external_data = False,
                        onnx_installed = True\<rparr>"

section \<open>Verified properties\<close>

subsection \<open>Landmark Normalizer\<close>

lemma np_max_Max: "xs \<noteq> [] \<Longrightarrow> np_max xs = Max (set xs)"
proof -
  assume "xs \<noteq> []"
  then obtain y ys where xs: "xs = y # ys" by (cases xs) auto
  have "foldl max y ys = fold max ys y"
    by (simp add: foldl_conv_fold max.commute)
  then show ?thesis
    unfolding np_max_def xs using Max.set_eq_fold[of y ys] by simp
qed

lemma length_concat_rows:
  "\<forall>r \<in> set rows. length r = n \<Longrightarrow> length (concat rows) = n * length rows"
  by (induction rows) auto

lemma translate_coords_of:
  "translate [lm_x w, lm_y w, lm_z w] (coords_of lms) =
     map (\<lambda>lm. [lm_x lm - lm_x w, lm_y lm - lm_y w, lm_z lm - lm_z w]) lms"
  by (simp add: translate_def coords_of_def)

lemma concat_scale:
  "concat (scale coords) =
     (let m = np_max (map abs (concat coords))
      in map (\<lambda>v. if m > 1 / 1000000 then v / m else v) (concat coords))"
  by (simp add: scale_def Let_def map_concat)

lemma normalize_present:
  assumes "lms \<noteq> []"
  shows "normalize_hand_landmarks (Some lms) =
     Inr \<lparr>dtype = Float64, shape = [3 * length lms],
          data = (let m = Max (set (map abs (translated lms)))
                  in map (\<lambda>v. if m > 1 / 1000000 then v / m else v) (translated lms))\<rparr>"
proof -
  obtain w rest where lms: "lms = w # rest" using assms by (cases lms) auto
  have c: "coords_of lms = [lm_x w, lm_y w, lm_z w] # coords_of rest"
    by (simp add: lms coords_of_def)
  have t: "translate [lm_x w, lm_y w, lm_z w] ([lm_x w, lm_y w, lm_z w] # coords_of rest) =
     map (\<lambda>lm. [lm_x lm - lm_x w, lm_y lm - lm_y w, lm_z lm - lm_z w]) lms"
    using translate_coords_of[of w lms] c by simp
  have tr: "translated lms =
     concat (map (\<lambda>lm. [lm_x lm - lm_x w, lm_y lm - lm_y w, lm_z lm - lm_z w]) lms)"
    by (simp add: translated_def lms)
  have ne: "map abs (translated lms) \<noteq> []" by (simp add: translated_def lms)
  have len: "length (translated lms) = 3 * length lms"
    unfolding translated_def by (rule length_concat_rows[where n=3, simplified, THEN trans]) auto
  show ?thesis
    unfolding normalize_hand_landmarks_def
    apply (simp only: c list.case option.case t Let_def concat_scale)
    apply (simp only: tr[symmetric] np_max_Max[OF ne])
    apply (simp add: len)
    done
qed

lemma translated_wrist: "lms \<noteq> [] \<Longrightarrow> take 3 (translated lms) = [0, 0, 0]"
  by (cases lms) (simp_all add: translated_def)

text \<open>
  Claim C3. The normalizer returns the all-zero vector of length 63 for an absent hand.
  For a hand of 21 landmarks it returns a vector of length 63 that holds the
  wrist-relative coordinates, landmark by landmark and x, y, z within a landmark, each
  divided by the largest absolute wrist-relative coordinate when that exceeds 1e-6 and
  unchanged otherwise; the wrist's three coordinates are 0 before and after the scaling.
\<close>

theorem normalize_hand_landmarks_vector:
  "normalize_hand_landmarks None = Inr (np_zeros 63) \<and>
   shape (np_zeros 63) = [63] \<and> data (np_zeros 63) = replicate 63 0 \<and>
   (length lms = 21 \<longrightarrow>
      (\<exists>a. normalize_hand_landmarks (Some lms) = Inr a \<and>
           shape a = [63] \<and> length (data a) = 63 \<and>
           take 3 (translated lms) = [0, 0, 0] \<and>
           data a = (let m = Max (set (map abs (translated lms)))
                     in map (\<lambda>v. if m > 1 / 1000000 then v / m else v) (translated lms)) \<and>
           take 3 (data a) = [0, 0, 0]))"
proof -
  have absent: "normalize_hand_landmarks None = Inr (np_zeros 63)"
    by (simp add: normalize_hand_landmarks_def HAND_FEATURES_def)
  have zeros: "shape (np_zeros 63) = [63] \<and> data (np_zeros 63) = replicate 63 0"
    by (simp add: np_zeros_def)
  have present: "\<exists>a. normalize_hand_landmarks (Some lms) = Inr a \<and>
           shape a = [63] \<and> length (data a) = 63 \<and>
           take 3 (translated lms) = [0, 0, 0] \<and>
           data a = (let m = Max (set (map abs (translated lms)))
                     in map (\<lambda>v. if m > 1 / 1000000 then v / m else v) (translated lms)) \<and>
           take 3 (data a) = [0, 0, 0]" if len: "length lms = 21"
  proof -
    from len have ne: "lms \<noteq> []" by auto
    have tl: "length (translated lms) = 63"
      unfolding translated_def using len
      by (simp add: length_concat_rows[where n=3])
    have w: "take 3 (translated lms) = [0, 0, 0]"
      by (rule translated_wrist[OF ne])
    have w': "take 3 (map (\<lambda>v. if c then v / m else v) (translated lms)) = [0, 0, 0]"
      for c and m :: real
      using w by (simp add: take_map)
    show ?thesis
      using normalize_present[OF ne] len tl w w'
      by (simp add: Let_def)
  qed
  from absent zeros present show ?thesis by blast
qed

theorem normalize_hand_landmarks_vector_witness:
  "length flat_hand = 21 \<and>
   (\<exists>a. normalize_hand_landmarks (Some flat_hand) = Inr a \<and> shape a = [63] \<and>
        take 3 (data a) = [0, 0, 0])"
proof -
  have len: "length flat_hand = 21" by (simp add: flat_hand_def)
  with normalize_hand_landmarks_vector [of flat_hand] show ?thesis by blast
qed

subsection \<open>Feature Vector Assembler\<close>

lemma last_where_Nil: "last_where P [] d = d"
  by (simp add: last_where_def)

lemma last_where_Cons:
  "last_where P ((a, b) # ts) d = last_where P ts (if P a then Some b else d)"
  by (simp add: last_where_def split: list.splits)

lemma hands_loop_slots:
  assumes "i + length hs = length hl" "list_all (\<lambda>h. h \<noteq> []) hs"
  shows "hands_loop i hs hl (l, r) =
     Inr (last_where (\<lambda>lab. lab \<noteq> ''Left'') (zip (map hand_label hs) (drop i hl)) l,
          last_where (\<lambda>lab. lab = ''Left'') (zip (map hand_label hs) (drop i hl)) r)"
  using assms
proof (induction hs arbitrary: i l r)
  case Nil
  then show ?case by (simp add: last_where_Nil)
next
  case (Cons h hs)
  from Cons.prems obtain c cs where h: "h = c # cs" by (cases h) auto
  from Cons.prems have i: "i < length hl" by simp
  then have d: "drop i hl = hl ! i # drop (Suc i) hl" by (simp add: Cons_nth_drop_Suc)
  from Cons.prems have p: "Suc i + length hs = length hl" "list_all (\<lambda>h. h \<noteq> []) hs" by simp_all
  show ?case
    using i by (simp add: h d Cons.IH[OF p] last_where_Cons hand_label_def)
qed

lemma last_filter_nth:
  assumes "i < length xs" "P (xs ! i)" "\<forall>j. i < j \<and> j < length xs \<longrightarrow> \<not> P (xs ! j)"
  shows "filter P xs \<noteq> [] \<and> last (filter P xs) = xs ! i"
proof -
  have xs: "xs = take i xs @ xs ! i # drop (Suc i) xs"
    using assms(1) by (simp add: id_take_nth_drop)
  have "\<forall>y \<in> set (drop (Suc i) xs). \<not> P y"
  proof
    fix y assume "y \<in> set (drop (Suc i) xs)"
    then obtain k where k: "k < length (drop (Suc i) xs)" "y = drop (Suc i) xs ! k"
      by (auto simp: in_set_conv_nth)
    then have "y = xs ! (Suc i + k)" "Suc i + k < length xs" by auto
    with assms(3) show "\<not> P y" by auto
  qed
  then have e: "filter P (drop (Suc i) xs) = []" by (simp add: filter_empty_conv)
  have "filter P xs = filter P (take i xs) @ [xs ! i]"
    by (subst xs) (simp add: assms(2) e)
  then show ?thesis by simp
qed

lemma last_where_nth:
  assumes "i < length labs" "length labs = length vs" "P (labs ! i)"
    "\<forall>j. i < j \<and> j < length labs \<longrightarrow> \<not> P (labs ! j)"
  shows "last_where P (zip labs vs) d = Some (vs ! i)"
proof -
  let ?Q = "\<lambda>t. P (fst t)"
  have "filter ?Q (zip labs vs) \<noteq> [] \<and> last (filter ?Q (zip labs vs)) = zip labs vs ! i"
    using assms by (intro last_filter_nth) auto
  then show ?thesis
    using assms by (auto simp: last_where_def split: list.splits)
qed

lemma last_where_None:
  assumes "length labs = length vs"
  shows "last_where P (zip labs vs) None = None \<longleftrightarrow> (\<forall>i < length labs. \<not> P (labs ! i))"
proof -
  have "filter (\<lambda>t. P (fst t)) (zip labs vs) = [] \<longleftrightarrow> (\<forall>i < length labs. \<not> P (labs ! i))"
    using assms by (auto simp: filter_empty_conv set_zip)
  then show ?thesis by (auto simp: last_where_def split: list.splits)
qed

text \<open>
  Claim C2. For detections as the detector delivers them, a hand labelled "Left" that no
  later detection labelled "Left" follows is the one in the right-hand slot, and a hand
  labelled "Right" that no later detection with another label than "Left" follows is the
  one in the left-hand slot: labels are mirrored and the later detection of a slot
  overwrites the earlier. A slot stays empty exactly when no detection resolves to it.
\<close>

theorem resolve_hands_mirrored_last_wins:
  assumes "hands_ok (Some hr)"
  shows "\<exists>left_hand right_hand.
     resolve_hands (Some hr) = Inr (left_hand, right_hand) \<and>
     (\<forall>i < length (hand_landmarks hr).
        (hand_label (handedness hr ! i) = ''Left'' \<and>
         (\<forall>j. i < j \<and> j < length (hand_landmarks hr) \<longrightarrow>
              hand_label (handedness hr ! j) \<noteq> ''Left'')
         \<longrightarrow> right_hand = Some (hand_landmarks hr ! i)) \<and>
        (hand_label (handedness hr ! i) = ''Right'' \<and>
         (\<forall>j. i < j \<and> j < length (hand_landmarks hr) \<longrightarrow>
              hand_label (handedness hr ! j) = ''Left'')
         \<longrightarrow> left_hand = Some (hand_landmarks hr ! i))) \<and>
     (right_hand = None \<longleftrightarrow>
        (\<forall>i < length (hand_landmarks hr). hand_label (handedness hr ! i) \<noteq> ''Left'')) \<and>
     (left_hand = None \<longleftrightarrow>
        (\<forall>i < length (hand_landmarks hr). hand_label (handedness hr ! i) = ''Left''))"
proof -
  let ?hs = "handedness hr" and ?hl = "hand_landmarks hr"
  let ?labs = "map hand_label ?hs"
  from assms have len: "length ?hs = length ?hl" and ne: "list_all (\<lambda>h. h \<noteq> []) ?hs"
    by (simp_all add: hands_ok_def)
  define left_hand where "left_hand = last_where (\<lambda>lab. lab \<noteq> ''Left'') (zip ?labs ?hl) None"
  define right_hand where "right_hand = last_where (\<lambda>lab. lab = ''Left'') (zip ?labs ?hl) None"
  have res: "resolve_hands (Some hr) = Inr (left_hand, right_hand)"
  proof (cases "?hl = []")
    case True
    with len show ?thesis
      by (simp add: resolve_hands_def left_hand_def right_hand_def last_where_Nil)
  next
    case False
    have "hands_loop 0 ?hs ?hl (None, None) = Inr (left_hand, right_hand)"
      using hands_loop_slots[of 0 ?hs ?hl None None] len ne
      by (simp add: left_hand_def right_hand_def)
    with False show ?thesis by (simp add: resolve_hands_def)
  qed
  have ll: "length ?labs = length ?hl" using len by simp
  have r: "right_hand = Some (?hl ! i)"
    if "i < length ?hl" "hand_label (?hs ! i) = ''Left''"
       "\<forall>j. i < j \<and> j < length ?hl \<longrightarrow> hand_label (?hs ! j) \<noteq> ''Left''" for i
    unfolding right_hand_def using that len
    by (intro last_where_nth) auto
  have l: "left_hand = Some (?hl ! i)"
    if "i < length ?hl" "hand_label (?hs ! i) = ''Right''"
       "\<forall>j. i < j \<and> j < length ?hl \<longrightarrow> hand_label (?hs ! j) = ''Left''" for i
    unfolding left_hand_def using that len
    by (intro last_where_nth) auto
  have rn: "right_hand = None \<longleftrightarrow> (\<forall>i < length ?hl. hand_label (?hs ! i) \<noteq> ''Left'')"
    unfolding right_hand_def using last_where_None[OF ll, of "\<lambda>lab. lab = ''Left''"] len by auto
  have ln: "left_hand = None \<longleftrightarrow> (\<forall>i < length ?hl. hand_label (?hs ! i) = ''Left'')"
    unfolding left_hand_def using last_where_None[OF ll, of "\<lambda>lab. lab \<noteq> ''Left''"] len by auto
  from res r l rn ln show ?thesis by blast
qed

lemma length_hand_at: "length (hand_at d) = 21"
  by (simp add: hand_at_def flat_hand_def)

lemma hands_ok_mirror_frame: "hands_ok (Some mirror_frame)"
  by (simp add: hands_ok_def mirror_frame_def length_hand_at)

theorem resolve_hands_mirrored_last_wins_witness:
  "hands_ok (Some mirror_frame) \<and>
   resolve_hands (Some mirror_frame) = Inr (Some (hand_at 1), Some (hand_at 2))"
proof -
  from resolve_hands_mirrored_last_wins [OF hands_ok_mirror_frame]
  obtain left_hand right_hand where
    res: "resolve_hands (Some mirror_frame) = Inr (left_hand, right_hand)" and
    slots: "\<forall>i < length (hand_landmarks mirror_frame).
        (hand_label (handedness mirror_frame ! i) = ''Left'' \<and>
         (\<forall>j. i < j \<and> j < length (hand_landmarks mirror_frame) \<longrightarrow>
              hand_label (handedness mirror_frame ! j) \<noteq> ''Left'')
         \<longrightarrow> right_hand = Some (hand_landmarks mirror_frame ! i)) \<and>
        (hand_label (handedness mirror_frame ! i) = ''Right'' \<and>
         (\<forall>j. i < j \<and> j < length (hand_landmarks mirror_frame) \<longrightarrow>
              hand_label (handedness mirror_frame ! j) = ''Left'')
         \<longrightarrow> left_hand = Some (hand_landmarks mirror_frame ! i))"
    by blast
  have n: "length (hand_landmarks mirror_frame) = 3" by (simp add: mirror_frame_def)
  have j1: "j = 2" if "1 < j" "j < 3" for j :: nat using that by arith
  have "right_hand = Some (hand_landmarks mirror_frame ! 2)"
    using slots[rule_format, of 2] by (simp add: n) (simp add: mirror_frame_def hand_label_def)
  moreover have "left_hand = Some (hand_landmarks mirror_frame ! 1)"
    using slots[rule_format, of 1] j1
    by (simp add: n) (auto simp: mirror_frame_def hand_label_def)
  ultimately show ?thesis
    using res hands_ok_mirror_frame by (simp add: mirror_frame_def)
qed

lemma resolve_hands_ok:
  assumes "hands_ok (Some hr)"
  shows "\<exists>l r. resolve_hands (Some hr) = Inr (l, r)"
proof -
  from assms have len: "length (handedness hr) = length (hand_landmarks hr)"
    and ne: "list_all (\<lambda>h. h \<noteq> []) (handedness hr)"
    by (simp_all add: hands_ok_def)
  show ?thesis
    using hands_loop_slots[of 0 "handedness hr" "hand_landmarks hr" None None] len ne
    by (simp add: resolve_hands_def)
qed

lemma hands_loop_from:
  "hands_loop i hs hl (l, r) = Inr (l', r') \<Longrightarrow>
     (l' = l \<or> (\<exists>x \<in> set hl. l' = Some x)) \<and> (r' = r \<or> (\<exists>x \<in> set hl. r' = Some x))"
proof (induction hs arbitrary: i l r)
  case Nil
  then show ?case by simp
next
  case (Cons h hs)
  then show ?case
    by (fastforce split: list.splits if_splits)
qed

lemma resolve_hands_from:
  assumes "resolve_hands (Some hr) = Inr (l, r)"
  shows "(l = None \<or> (\<exists>x \<in> set (hand_landmarks hr). l = Some x)) \<and>
         (r = None \<or> (\<exists>x \<in> set (hand_landmarks hr). r = Some x))"
  using assms hands_loop_from[of 0 "handedness hr" "hand_landmarks hr" None None l r]
  by (auto simp: resolve_hands_def split: if_splits)

lemma length_extract_pose_subset:
  "length (data (extract_pose_subset True p)) = 33 \<and> shape (extract_pose_subset True p) = [33]"
  by (cases p)
     (simp_all add: extract_pose_subset_def np_zeros_def POSE_FEATURES_def
        POSE_LANDMARKS_COUNT_def POSE_INDICES_def Let_def)

lemma normalize_63:
  assumes "slot = None \<or> (\<exists>x. slot = Some x \<and> length x = 21)"
  shows "\<exists>a. normalize_hand_landmarks slot = Inr a \<and> length (data a) = 63"
proof (cases slot)
  case None
  then show ?thesis
    by (simp add: normalize_hand_landmarks_def np_zeros_def HAND_FEATURES_def)
next
  case (Some x)
  with assms have len: "length x = 21" by simp
  then have ne: "x \<noteq> []" by auto
  have "length (translated x) = 63"
    unfolding translated_def using len by (simp add: length_concat_rows[where n=3])
  then show ?thesis
    using normalize_present[OF ne] Some by (simp add: Let_def)
qed

lemma assembled_layout:
  assumes "hands_ok hand_result"
  shows "\<exists>left_hand right_hand l r v.
     resolve_hands hand_result = Inr (left_hand, right_hand) \<and>
     normalize_hand_landmarks left_hand = Inr l \<and> length (data l) = 63 \<and>
     normalize_hand_landmarks right_hand = Inr r \<and> length (data r) = 63 \<and>
     (use_pose \<longrightarrow>
        length (data (extract_pose_subset use_pose (first_pose pose_result))) = 33) \<and>
     extract_all_features use_pose f32 hand_result pose_result = Inr v \<and>
     dtype v = Float32 \<and>
     shape v = [if use_pose then 159 else 126] \<and>
     length (data v) = (if use_pose then 159 else 126) \<and>
     data v = map f32 (data l @ data r @
                (if use_pose then data (extract_pose_subset use_pose (first_pose pose_result))
                 else []))"
proof -
  obtain left_hand right_hand where
    res: "resolve_hands hand_result = Inr (left_hand, right_hand)" and
    lh: "left_hand = None \<or> (\<exists>x. left_hand = Some x \<and> length x = 21)" and
    rh: "right_hand = None \<or> (\<exists>x. right_hand = Some x \<and> length x = 21)"
  proof (cases hand_result)
    case None
    then have "resolve_hands hand_result = Inr (None, None)" by (simp add: resolve_hands_def)
    then show ?thesis using that by blast
  next
    case (Some hr)
    with assms have ok: "hands_ok (Some hr)" by simp
    obtain l r where lr: "resolve_hands (Some hr) = Inr (l, r)"
      using resolve_hands_ok[OF ok] by blast
    have all21: "\<forall>x \<in> set (hand_landmarks hr). length x = 21"
      using ok by (simp add: hands_ok_def list_all_iff)
    from resolve_hands_from[OF lr] all21
    have "l = None \<or> (\<exists>x. l = Some x \<and> length x = 21)"
         "r = None \<or> (\<exists>x. r = Some x \<and> length x = 21)" by auto
    with lr Some show ?thesis using that by blast
  qed
  obtain l where l: "normalize_hand_landmarks left_hand = Inr l" "length (data l) = 63"
    using normalize_63[OF lh] by blast
  obtain r where r: "normalize_hand_landmarks right_hand = Inr r" "length (data r) = 63"
    using normalize_63[OF rh] by blast
  let ?p = "extract_pose_subset use_pose (first_pose pose_result)"
  have p: "use_pose \<longrightarrow> length (data ?p) = 33"
    using length_extract_pose_subset by simp
  let ?v = "astype_float32 f32
              (if use_pose then np_concatenate [np_concatenate [l, r], ?p]
               else np_concatenate [l, r])"
  have v: "extract_all_features use_pose f32 hand_result pose_result = Inr ?v"
    by (simp add: extract_all_features_def res l r Let_def)
  have "dtype ?v = Float32" by (simp add: astype_float32_def)
  moreover have "shape ?v = [if use_pose then 159 else 126]"
    using l r p by (simp add: astype_float32_def np_concatenate_def)
  moreover have "length (data ?v) = (if use_pose then 159 else 126)"
    using l r p by (simp add: astype_float32_def np_concatenate_def)
  moreover have "data ?v = map f32 (data l @ data r @ (if use_pose then data ?p else []))"
    by (simp add: astype_float32_def np_concatenate_def)
  ultimately show ?thesis using res l r p v by blast
qed



subsection \<open>Sample numbering\<close>

declare str_nat.simps [simp del]

lemma digit_char_cases:
  assumes "n < 10"
  shows "n \<in> {0, 1, 2, 3, 4, 5, 6, 7, 8, 9 :: nat}"
  using assms by auto

lemma of_char_digit_char: "n < 10 \<Longrightarrow> (of_char (digit_char n) :: nat) = 48 + n"
  using digit_char_cases[of n] by (auto simp: digit_char_def)

lemma is_digit_digit_char: "n < 10 \<Longrightarrow> is_digit (digit_char n)"
  by (simp add: is_digit_def of_char_digit_char)

lemma is_digit_props:
  assumes "is_digit c"
  shows "\<not> is_space c" "c \<noteq> CHR ''.''" "c \<noteq> CHR ''-''" "c \<noteq> CHR ''+''"
  using assms by (auto simp: is_digit_def is_space_def Let_def)

lemma str_nat_digits: "list_all is_digit (str_nat n) \<and> str_nat n \<noteq> []"
proof (induction n rule: str_nat.induct)
  case (1 n)
  show ?case
  proof (cases "n < 10")
    case True
    then show ?thesis by (subst str_nat.simps, subst (2) str_nat.simps) (simp add: is_digit_digit_char)
  next
    case False
    with 1 show ?thesis
      by (subst str_nat.simps, subst (2) str_nat.simps) (simp add: is_digit_digit_char)
  qed
qed

lemma digits_value_snoc:
  "digits_value (ds @ [c]) = 10 * digits_value ds + (int (of_char c) - 48)"
  by (simp add: digits_value_def)

lemma digits_value_str_nat: "digits_value (str_nat n) = int n"
proof (induction n rule: str_nat.induct)
  case (1 n)
  show ?case
  proof (cases "n < 10")
    case True
    then show ?thesis
      by (subst str_nat.simps) (simp add: digits_value_def of_char_digit_char)
  next
    case False
    then have "digits_value (str_nat n) =
        10 * digits_value (str_nat (n div 10)) + (int (of_char (digit_char (n mod 10))) - 48)"
      by (subst str_nat.simps) (simp add: digits_value_snoc)
    also have "\<dots> = 10 * int (n div 10) + int (n mod 10)"
      using 1[OF False] by (simp add: of_char_digit_char)
    also have "\<dots> = int n" by presburger
    finally show ?thesis .
  qed
qed

lemma py_strip_id:
  assumes "s \<noteq> []" "\<not> is_space (hd s)" "\<not> is_space (last s)"
  shows "py_strip s = s"
proof -
  from assms have a: "dropWhile is_space s = s" by (cases s) auto
  from assms have "rev s \<noteq> []" "\<not> is_space (hd (rev s))" by (simp_all add: hd_rev)
  then have "dropWhile is_space (rev s) = rev s" by (cases "rev s") auto
  with a show ?thesis by (simp add: py_strip_def)
qed

lemma digits_ends:
  assumes "list_all is_digit ds" "ds \<noteq> []"
  shows "is_digit (hd ds)" "is_digit (last ds)"
  using assms by (auto simp: list_all_iff)

lemma py_int_py_str: "py_int (py_str i) = Inr i"
proof -
  obtain ds n where ds: "ds = str_nat n" and n: "n = (if i < 0 then nat (- i) else nat i)" by simp
  have dig: "list_all is_digit ds" "ds \<noteq> []" using str_nat_digits[of n] ds by simp_all
  note ends = digits_ends[OF dig]
  show ?thesis
  proof (cases "i < 0")
    case True
    then have s: "py_str i = CHR ''-'' # ds" by (simp add: py_str_def ds n)
    have "\<not> is_space (CHR ''-'')" by (simp add: is_space_def)
    moreover have "\<not> is_space (last (CHR ''-'' # ds))"
      using dig ends is_digit_props(1) by simp
    ultimately have "py_strip (CHR ''-'' # ds) = CHR ''-'' # ds"
      by (intro py_strip_id) simp_all
    then show ?thesis
      using True dig by (simp add: py_int_def s digits_value_str_nat ds n)
  next
    case False
    then have s: "py_str i = ds" by (simp add: py_str_def ds n)
    have st: "py_strip ds = ds"
      using dig ends is_digit_props(1) by (intro py_strip_id) simp_all
    have dv: "digits_value ds = i"
      using False by (simp add: ds digits_value_str_nat n)
    have sg: "(case ds of [] \<Rightarrow> (1::int, []) | c # r \<Rightarrow>
                if c = CHR ''-'' then (- 1, r) else if c = CHR ''+'' then (1, r) else (1, ds))
              = (1, ds)"
      using ends(1) is_digit_props(3,4)[of "hd ds"] dig(2) by (cases ds) auto
    show ?thesis
      unfolding py_int_def s st Let_def sg using dig dv by simp
  qed
qed

lemma py_replace_npy:
  "CHR ''.'' \<notin> set s \<Longrightarrow> py_replace ''.npy'' '''' (s @ ''.npy'') = s"
  by (induction s) auto

lemma py_str_no_dot: "CHR ''.'' \<notin> set (py_str i)"
proof -
  have "CHR ''.'' \<notin> set (str_nat n)" for n
    using str_nat_digits[of n] is_digit_props(2) by (auto simp: list_all_iff)
  then show ?thesis by (simp add: py_str_def)
qed

lemma py_int_sample_name: "py_int (py_replace ''.npy'' '''' (sample_name i)) = Inr i"
  by (simp add: sample_name_def py_replace_npy[OF py_str_no_dot] py_int_py_str)

lemma sample_numbers_names: "sample_numbers (map sample_name idx) = Inr idx"
  by (induction idx) (simp_all add: py_int_sample_name)

lemma py_max_Max: "xs \<noteq> [] \<Longrightarrow> py_max xs = Max (set xs)"
proof -
  assume "xs \<noteq> []"
  then obtain y ys where xs: "xs = y # ys" by (cases xs) auto
  have "foldl max y ys = fold max ys y"
    by (simp add: foldl_conv_fold max.commute)
  then show ?thesis
    unfolding py_max_def xs using Max.set_eq_fold[of y ys] by simp
qed

text \<open>
  Claim C8. For a label directory that does not exist yet the next sample index is 0
  (and the directory is created). For an existing directory whose array files are the
  samples with indices \<open>idx\<close>, in any order and with any gaps, the next index is 0 when
  there is none and the largest index plus 1 otherwise.
\<close>

theorem get_next_sample_number_max:
  "(fs_lookup fs label_dir = None \<longrightarrow>
      get_next_sample_number label_dir fs = Inr (0, fs_put label_dir (Dir []) fs)) \<and>
   (fs_lookup fs label_dir = Some (Dir d) \<and>
    filter (\<lambda>f. endswith f ''.npy'') (map fst d) = map sample_name idx \<longrightarrow>
      get_next_sample_number label_dir fs =
        Inr (if idx = [] then 0 else Max (set idx) + 1, fs))"
  by (simp add: get_next_sample_number_def sample_numbers_names py_max_Max)

text \<open>The example of the spec: samples 0, 1 and 3 exist, the next index is 4.\<close>

theorem get_next_sample_number_max_witness:
  "fs_lookup three_samples ''b'' = None \<and>
   get_next_sample_number ''b'' three_samples = Inr (0, fs_put ''b'' (Dir []) three_samples) \<and>
   get_next_sample_number ''a'' three_samples = Inr (4, three_samples)"
proof -
  have names: "sample_name 0 = ''0.npy''" "sample_name 3 = ''3.npy''" "sample_name 1 = ''1.npy''"
    by (simp_all add: sample_name_def py_str_def str_nat.simps digit_char_def)
  have none: "fs_lookup three_samples ''b'' = None"
    by (simp add: three_samples_def fs_lookup_def)
  have dir: "fs_lookup three_samples ''a'' =
         Some (Dir [(''0.npy'', np_zeros 1), (''3.npy'', np_zeros 1),
                    (''notes.txt'', np_zeros 1), (''1.npy'', np_zeros 1)]) \<and>
       filter (\<lambda>f. endswith f ''.npy'')
         (map fst [(''0.npy'', np_zeros 1), (''3.npy'', np_zeros 1),
                   (''notes.txt'', np_zeros 1), (''1.npy'', np_zeros 1)]) =
       map sample_name [0, 3, 1]"
    by (simp add: three_samples_def fs_lookup_def endswith_def names)
  have "get_next_sample_number ''a'' three_samples =
          Inr (if [0, 3, 1] = ([]::int list) then 0 else Max (set [0, 3, 1]) + 1, three_samples)"
    using get_next_sample_number_max [of three_samples "''a''" _ "[0, 3, 1]"] dir by blast
  then have "get_next_sample_number ''a'' three_samples = Inr (4, three_samples)" by simp
  moreover have "get_next_sample_number ''b'' three_samples =
      Inr (0, fs_put ''b'' (Dir []) three_samples)"
    using get_next_sample_number_max [of three_samples "''b''"] none by blast
  ultimately show ?thesis using none by simp
qed

subsection \<open>Sequence Recorder\<close>

lemma assembled_features:
  assumes "hands_ok hr"
  shows "\<exists>v. extract_all_features use_pose f32 hr pr = Inr v \<and>
     dtype v = Float32 \<and> shape v = [TOTAL_FEATURES use_pose]"
  using assembled_layout[OF assms, where use_pose = use_pose and ?f32.0 = f32 and pose_result = pr]
  by (auto simp: TOTAL_FEATURES_def HAND_FEATURES_def POSE_FEATURES_def POSE_LANDMARKS_COUNT_def)

lemma features_of_ok:
  assumes "hands_ok (detected_hands t)"
  shows "extract_all_features use_pose f32 (detected_hands t) (detected_pose t) =
           Inr (features_of use_pose f32 t) \<and>
         dtype (features_of use_pose f32 t) = Float32 \<and>
         shape (features_of use_pose f32 t) = [TOTAL_FEATURES use_pose]"
  using assembled_features[OF assms, of use_pose f32 "detected_pose t"]
  by (auto simp: features_of_def)

lemma iteration_frame_tick:
  assumes "frame_tick t" "is_recording s"
    "length (current_sequence s) + length (captured (last_frame_time s) [t]) < SEQUENCE_LENGTH"
  shows "iteration use_pose f32 t s =
     Inr (Continue (s\<lparr>current_sequence :=
                        current_sequence s @
                          map (features_of use_pose f32) (captured (last_frame_time s) [t]),
                      last_frame_time := last_capture (last_frame_time s) [t],
                      frame_timestamp := frame_timestamp s + 33\<rparr>))"
proof -
  from assms(1) have t: "ret t" "key t = 255" "hands_ok (detected_hands t)"
    by (simp_all add: frame_tick_def)
  note f = features_of_ok[OF t(3), of use_pose f32]
  have k: "key_handling t s' = Continue s'" for s'
    by (simp add: key_handling_def t(2))
  show ?thesis
  proof (cases "clock t - last_frame_time s \<ge> frame_delay")
    case True
    with assms(3) have "Suc (length (current_sequence s)) < SEQUENCE_LENGTH" by simp
    then show ?thesis
      using True assms(2) t(1) f
      by (simp add: iteration_def recording_logic_def Let_def k)
  next
    case False
    then show ?thesis
      using assms(2) t(1)
      by (simp add: iteration_def recording_logic_def Let_def k)
  qed
qed

lemma run_frame_ticks:
  assumes "list_all frame_tick ts" "is_recording s"
    "length (current_sequence s) + length (captured (last_frame_time s) ts) < SEQUENCE_LENGTH"
  shows "run use_pose f32 (ts @ rest) s =
     run use_pose f32 rest
       (s\<lparr>current_sequence :=
            current_sequence s @ map (features_of use_pose f32) (captured (last_frame_time s) ts),
          last_frame_time := last_capture (last_frame_time s) ts,
          frame_timestamp := frame_timestamp s + 33 * length ts\<rparr>)"
  using assms
proof (induction ts arbitrary: s)
  case Nil
  then show ?case by simp
next
  case (Cons t ts)
  let ?s' = "s\<lparr>current_sequence :=
                        current_sequence s @
                          map (features_of use_pose f32) (captured (last_frame_time s) [t]),
                      last_frame_time := last_capture (last_frame_time s) [t],
                      frame_timestamp := frame_timestamp s + 33\<rparr>"
  from Cons.prems have ft: "frame_tick t" "list_all frame_tick ts" by simp_all
  have one: "length (current_sequence s) + length (captured (last_frame_time s) [t]) < SEQUENCE_LENGTH"
    using Cons.prems(3) by (simp split: if_splits)
  have it: "iteration use_pose f32 t s = Inr (Continue ?s')"
    by (rule iteration_frame_tick[OF ft(1) Cons.prems(2) one])
  have rec: "is_recording ?s'" using Cons.prems(2) by simp
  have len: "length (current_sequence ?s') + length (captured (last_frame_time ?s') ts) < SEQUENCE_LENGTH"
    using Cons.prems(3) by (simp split: if_splits)
  show ?case
    using Cons.IH[OF ft(2) rec len] it
    by (simp add: add.assoc split: if_splits)
qed


lemma captured_spaced: "spaced last_time ts \<Longrightarrow> captured last_time ts = ts"
  by (induction ts arbitrary: last_time) auto

lemma last_capture_spaced:
  "spaced last_time ts \<Longrightarrow> last_capture last_time ts = (if ts = [] then last_time else clock (last ts))"
  by (induction ts arbitrary: last_time) auto

lemma spaced_append:
  "spaced last_time (ts @ [t]) \<longleftrightarrow>
     spaced last_time ts \<and> clock t - (if ts = [] then last_time else clock (last ts)) \<ge> frame_delay"
  by (induction ts arbitrary: last_time) auto

lemma captured_append:
  "captured last_time (ts @ [t]) =
     captured last_time ts @ (if clock t - last_capture last_time ts \<ge> frame_delay then [t] else [])"
  by (induction ts arbitrary: last_time) auto

lemma map_of_put: "map_of (put k v xs) = (map_of xs)(k \<mapsto> v)"
  by (induction xs) auto

lemma put_new: "k \<notin> fst ` set xs \<Longrightarrow> put k v xs = xs @ [(k, v)]"
  by (induction xs) auto

lemma fs_lookup_fs_put: "fs_lookup (fs_put l n fs) l' = (if l' = l then Some n else fs_lookup fs l')"
  by (cases fs) (auto simp: fs_lookup_def fs_put_def map_of_put)

lemma endswith_sample_name: "endswith (sample_name i) ''.npy''"
  by (simp add: endswith_def sample_name_def)

lemma sample_name_inj:
  assumes "sample_name a = sample_name b"
  shows "a = b"
proof -
  have "(Inr a :: py_error + int) = py_int (py_replace ''.npy'' '''' (sample_name a))"
    by (simp only: py_int_sample_name)
  also have "\<dots> = py_int (py_replace ''.npy'' '''' (sample_name b))"
    by (simp only: assms)
  also have "\<dots> = Inr b" by (simp only: py_int_sample_name)
  finally show ?thesis by simp
qed

lemma next_sample_is_new:
  assumes "filter (\<lambda>f. endswith f ''.npy'') (map fst d) = map sample_name idx"
  shows "sample_name (if idx = [] then 0 else Max (set idx) + 1) \<notin> fst ` set d"
proof
  let ?n = "if idx = [] then 0 else Max (set idx) + 1"
  assume "sample_name ?n \<in> fst ` set d"
  then have "sample_name ?n \<in> set (filter (\<lambda>f. endswith f ''.npy'') (map fst d))"
    by (simp add: endswith_sample_name)
  with assms have "sample_name ?n \<in> sample_name ` set idx" by simp
  then obtain x where x: "x \<in> set idx" "sample_name ?n = sample_name x" by blast
  from x(2) have "?n = x" by (rule sample_name_inj)
  with x(1) have in_idx: "?n \<in> set idx" by simp
  then have ne: "idx \<noteq> []" by auto
  with in_idx have "Max (set idx) + 1 \<in> set idx" by simp
  then have "Max (set idx) + 1 \<le> Max (set idx)" by (intro Max_ge) simp_all
  then show False by simp
qed


lemma np_array_frames:
  assumes "frames \<noteq> []" "\<forall>a \<in> set frames. shape a = [F] \<and> dtype a = Float32"
  shows "np_array frames =
           Inr \<lparr>dtype = Float32, shape = [length frames, F], data = concat (map data frames)\<rparr>"
proof -
  obtain a rest where fr: "frames = a # rest" using assms(1) by (cases frames) auto
  have "list_all (\<lambda>b. shape b = shape a) rest" "list_all (\<lambda>b. dtype b = Float32) (a # rest)"
       "shape a = [F]"
    using assms(2) by (auto simp: fr list_all_iff)
  then show ?thesis by (simp add: np_array_def fr)
qed

lemma label_files_fs_put:
  "label_files (fs_put l (Dir d) fs) l' = (if l' = l then d else label_files fs l')"
  by (simp add: label_files_def fs_lookup_fs_put)

lemma save_sequence_new:
  assumes lab: "current_label s = Some l"
    and nofile: "fs_lookup (disk s) l \<noteq> Some File"
    and names: "filter (\<lambda>f. endswith f ''.npy'') (map fst (label_files (disk s) l)) =
                  map sample_name idx"
    and frames: "current_sequence s \<noteq> []"
                "\<forall>a \<in> set (current_sequence s). shape a = [F] \<and> dtype a = Float32"
  shows "\<exists>s'. save_sequence s = Inr s' \<and> \<not> is_recording s' \<and> current_sequence s' = [] \<and>
     current_label s' = Some l \<and>
     label_files (disk s') l =
       label_files (disk s) l @
         [(sample_name (if idx = [] then 0 else Max (set idx) + 1),
           \<lparr>dtype = Float32, shape = [length (current_sequence s), F],
            data = concat (map data (current_sequence s))\<rparr>)] \<and>
     sample_name (if idx = [] then 0 else Max (set idx) + 1) \<notin> fst ` set (label_files (disk s) l) \<and>
     (\<forall>l'. l' \<noteq> l \<longrightarrow> label_files (disk s') l' = label_files (disk s) l')"
proof -
  let ?n = "if idx = [] then 0 else Max (set idx) + 1"
  let ?arr = "\<lparr>dtype = Float32, shape = [length (current_sequence s), F],
            data = concat (map data (current_sequence s))\<rparr>"
  note arr = np_array_frames[OF frames]
  have new: "sample_name ?n \<notin> fst ` set (label_files (disk s) l)"
    by (rule next_sample_is_new[OF names])
  show ?thesis
  proof (cases "fs_lookup (disk s) l")
    case None
    then have lf: "label_files (disk s) l = []" by (simp add: label_files_def)
    with names have idx: "idx = []" by simp
    have g: "get_next_sample_number l (disk s) = Inr (0, fs_put l (Dir []) (disk s))"
      using None by (simp add: get_next_sample_number_def)
    have sv: "np_save l (sample_name 0) ?arr (fs_put l (Dir []) (disk s)) =
                Inr (fs_put l (Dir [(sample_name 0, ?arr)]) (fs_put l (Dir []) (disk s)))"
      by (simp add: np_save_def fs_lookup_fs_put)
    show ?thesis
      using new
      by (simp add: save_sequence_def lab g arr sv lf idx label_files_fs_put)
  next
    case (Some nd)
    with nofile obtain d where d: "fs_lookup (disk s) l = Some (Dir d)" by (cases nd) auto
    then have lf: "label_files (disk s) l = d" by (simp add: label_files_def)
    have g: "get_next_sample_number l (disk s) = Inr (?n, disk s)"
      using d names[unfolded lf]
      by (simp add: get_next_sample_number_def sample_numbers_names py_max_Max)
    have sv: "np_save l (sample_name ?n) ?arr (disk s) =
                Inr (fs_put l (Dir (d @ [(sample_name ?n, ?arr)])) (disk s))"
      using d new[unfolded lf] by (simp add: np_save_def put_new)
    show ?thesis
      using new
      by (simp add: save_sequence_def lab g arr sv lf label_files_fs_put del: if_split)
  qed
qed

lemma iteration_start:
  assumes "space_tick t" "\<not> is_recording s" "label_set (current_label s)"
  shows "iteration use_pose f32 t s =
     Inr (Continue (s\<lparr>frame_timestamp := frame_timestamp s + 33, is_recording := True,
                      current_sequence := [], last_frame_time := start_clock t\<rparr>))"
  using assms
  by (simp add: iteration_def recording_logic_def key_handling_def space_tick_def Let_def)

lemma iteration_last_frame:
  assumes "frame_tick t" "is_recording s"
    "clock t - last_frame_time s \<ge> frame_delay"
    "Suc (length (current_sequence s)) \<ge> SEQUENCE_LENGTH"
  shows "iteration use_pose f32 t s =
     (case save_sequence (s\<lparr>frame_timestamp := frame_timestamp s + 33,
                            current_sequence := current_sequence s @ [features_of use_pose f32 t],
                            last_frame_time := clock t\<rparr>) of
        Inl e \<Rightarrow> Inl e
      | Inr s2 \<Rightarrow> Inr (Continue s2))"
proof -
  from assms(1) have t: "ret t" "key t = 255" "hands_ok (detected_hands t)"
    by (simp_all add: frame_tick_def)
  note f = features_of_ok[OF t(3), of use_pose f32]
  have k: "key_handling t s' = Continue s'" for s'
    by (simp add: key_handling_def t(2))
  show ?thesis
    using assms(2,3,4) t(1) f
    by (simp add: iteration_def recording_logic_def Let_def k split: sum.splits)
qed

lemma iteration_cancel:
  assumes "space_tick t" "hands_ok (detected_hands t)" "is_recording s"
    "label_set (current_label s)"
    "length (current_sequence s) + length (captured (last_frame_time s) [t]) < SEQUENCE_LENGTH"
  shows "\<exists>s'. iteration use_pose f32 t s = Inr (Continue s') \<and> \<not> is_recording s' \<and>
     current_sequence s' = [] \<and> disk s' = disk s"
proof -
  from assms(1) have t: "ret t" "key t = 32" by (simp_all add: space_tick_def)
  note f = features_of_ok[OF assms(2), of use_pose f32]
  show ?thesis
  proof (cases "clock t - last_frame_time s \<ge> frame_delay")
    case True
    with assms(5) have "Suc (length (current_sequence s)) < SEQUENCE_LENGTH" by simp
    then show ?thesis
      using True assms(3,4) t f
      by (simp add: iteration_def recording_logic_def Let_def key_handling_def)
  next
    case False
    then show ?thesis
      using assms(3,4) t
      by (simp add: iteration_def recording_logic_def Let_def key_handling_def)
  qed
qed

lemma recorded_sequence:
  assumes lab: "current_label s = Some l" "l \<noteq> []"
    and idle: "\<not> is_recording s"
    and start: "space_tick t0"
    and ticks: "list_all frame_tick ts" "length ts = 30" "spaced (start_clock t0) ts"
    and dir: "fs_lookup (disk s) l \<noteq> Some File"
             "filter (\<lambda>f. endswith f ''.npy'') (map fst (label_files (disk s) l)) =
                map sample_name idx"
  shows "\<exists>s'. run use_pose f32 (t0 # ts) s = Inr s' \<and> \<not> is_recording s' \<and>
     current_sequence s' = [] \<and>
     label_files (disk s') l =
       label_files (disk s) l @
         [(sample_name (if idx = [] then 0 else Max (set idx) + 1),
           \<lparr>dtype = Float32, shape = [30, if use_pose then 159 else 126],
            data = concat (map (\<lambda>t. data (features_of use_pose f32 t)) ts)\<rparr>)] \<and>
     sample_name (if idx = [] then 0 else Max (set idx) + 1)
       \<notin> fst ` set (label_files (disk s) l) \<and>
     (\<forall>l'. l' \<noteq> l \<longrightarrow> label_files (disk s') l' = label_files (disk s) l')"
proof -
  let ?feat = "features_of use_pose f32"
  let ?s0 = "s\<lparr>frame_timestamp := frame_timestamp s + 33, is_recording := True,
                      current_sequence := [], last_frame_time := start_clock t0\<rparr>"
  have ls: "label_set (current_label s)" using lab by (simp add: label_set_def)
  have st: "iteration use_pose f32 t0 s = Inr (Continue ?s0)"
    by (rule iteration_start[OF start idle ls])
  obtain ts29 t30 where ts: "ts = ts29 @ [t30]"
    using ticks(2) by (cases ts rule: rev_cases) auto
  have l29: "length ts29 = 29" using ticks(2) ts by simp
  have sp: "spaced (start_clock t0) ts29"
    and gap: "clock t30 - (if ts29 = [] then start_clock t0 else clock (last ts29)) \<ge> frame_delay"
    using ticks(3) by (simp_all add: ts spaced_append)
  have ft: "list_all frame_tick ts29" "frame_tick t30" using ticks(1) by (simp_all add: ts)
  have cap: "captured (start_clock t0) ts29 = ts29" by (rule captured_spaced[OF sp])
  have lc: "last_capture (start_clock t0) ts29 =
              (if ts29 = [] then start_clock t0 else clock (last ts29))"
    by (rule last_capture_spaced[OF sp])
  let ?s1 = "?s0\<lparr>current_sequence :=
            current_sequence ?s0 @ map ?feat (captured (last_frame_time ?s0) ts29),
          last_frame_time := last_capture (last_frame_time ?s0) ts29,
          frame_timestamp := frame_timestamp ?s0 + 33 * length ts29\<rparr>"
  have r1: "run use_pose f32 (ts29 @ [t30]) ?s0 = run use_pose f32 [t30] ?s1"
    by (rule run_frame_ticks[OF ft(1)]) (simp_all add: cap l29 SEQUENCE_LENGTH_def)
  have s1: "is_recording ?s1" "current_sequence ?s1 = map ?feat ts29"
    "last_frame_time ?s1 = (if ts29 = [] then start_clock t0 else clock (last ts29))"
    "disk ?s1 = disk s" "current_label ?s1 = Some l"
    by (simp_all add: cap lc lab)
  let ?s2 = "?s1\<lparr>frame_timestamp := frame_timestamp ?s1 + 33,
                            current_sequence := current_sequence ?s1 @ [?feat t30],
                            last_frame_time := clock t30\<rparr>"
  have it: "iteration use_pose f32 t30 ?s1 =
     (case save_sequence ?s2 of Inl e \<Rightarrow> Inl e | Inr s2 \<Rightarrow> Inr (Continue s2))"
    by (rule iteration_last_frame[OF ft(2) s1(1)])
       (use gap in \<open>simp_all add: cap lc l29 SEQUENCE_LENGTH_def del: if_split\<close>)
  have s2: "current_label ?s2 = Some l" "disk ?s2 = disk s"
    "current_sequence ?s2 = map ?feat ts"
    by (simp_all add: lab cap ts)
  have shapes: "\<forall>a \<in> set (current_sequence ?s2).
                  shape a = [if use_pose then 159 else 126] \<and> dtype a = Float32"
  proof
    fix a assume "a \<in> set (current_sequence ?s2)"
    then obtain t where t: "t \<in> set ts" "a = ?feat t" unfolding s2(3) by auto
    with ticks(1) have "hands_ok (detected_hands t)" by (auto simp: list_all_iff frame_tick_def)
    from features_of_ok[OF this, of use_pose f32] t(2)
    show "shape a = [if use_pose then 159 else 126] \<and> dtype a = Float32"
      by (simp add: TOTAL_FEATURES_def HAND_FEATURES_def POSE_FEATURES_def
            POSE_LANDMARKS_COUNT_def)
  qed
  have ne: "current_sequence ?s2 \<noteq> []" unfolding s2(3) using ticks(2) by auto
  from save_sequence_new[of ?s2 l idx, OF s2(1) _ _ ne shapes] dir
  obtain s' where s': "save_sequence ?s2 = Inr s'" "\<not> is_recording s'"
     "current_sequence s' = []"
     "label_files (disk s') l =
       label_files (disk ?s2) l @
         [(sample_name (if idx = [] then 0 else Max (set idx) + 1),
           \<lparr>dtype = Float32,
            shape = [length (current_sequence ?s2), if use_pose then 159 else 126],
            data = concat (map data (current_sequence ?s2))\<rparr>)]"
     "sample_name (if idx = [] then 0 else Max (set idx) + 1)
        \<notin> fst ` set (label_files (disk ?s2) l)"
     "\<forall>l'. l' \<noteq> l \<longrightarrow> label_files (disk s') l' = label_files (disk ?s2) l'"
    unfolding s2(2) by blast
  have "run use_pose f32 (t0 # ts) s = Inr s'"
    by (simp only: run.simps st sum.case flow.case ts r1 it s'(1))
  moreover have "length (current_sequence ?s2) = 30" unfolding s2(3) using ticks(2) by simp
  moreover have "map data (current_sequence ?s2) = map (\<lambda>t. data (?feat t)) ts"
    unfolding s2(3) by simp
  ultimately show ?thesis
    using s'(2-6) unfolding s2(2) by (intro exI[of _ s']) (simp del: if_split)
qed

lemma cancelled_sequence:
  assumes lab: "current_label s = Some l" "l \<noteq> []"
    and idle: "\<not> is_recording s"
    and start: "space_tick t0"
    and ticks: "list_all frame_tick ts"
    and cancel: "space_tick tc" "hands_ok (detected_hands tc)"
    and few: "length (captured (start_clock t0) (ts @ [tc])) < 30"
  shows "\<exists>s'. run use_pose f32 (t0 # ts @ [tc]) s = Inr s' \<and> \<not> is_recording s' \<and>
     current_sequence s' = [] \<and> disk s' = disk s"
proof -
  let ?feat = "features_of use_pose f32"
  let ?s0 = "s\<lparr>frame_timestamp := frame_timestamp s + 33, is_recording := True,
                      current_sequence := [], last_frame_time := start_clock t0\<rparr>"
  have ls: "label_set (current_label s)" using lab by (simp add: label_set_def)
  have st: "iteration use_pose f32 t0 s = Inr (Continue ?s0)"
    by (rule iteration_start[OF start idle ls])
  let ?s1 = "?s0\<lparr>current_sequence :=
            current_sequence ?s0 @ map ?feat (captured (last_frame_time ?s0) ts),
          last_frame_time := last_capture (last_frame_time ?s0) ts,
          frame_timestamp := frame_timestamp ?s0 + 33 * length ts\<rparr>"
  have few': "length (captured (start_clock t0) ts) +
      length (captured (last_capture (start_clock t0) ts) [tc]) < 30"
    using few by (simp add: captured_append split: if_splits)
  have r1: "run use_pose f32 (ts @ [tc]) ?s0 = run use_pose f32 [tc] ?s1"
    by (rule run_frame_ticks[OF ticks]) (use few' in \<open>simp_all add: SEQUENCE_LENGTH_def\<close>)
  have "\<exists>s'. iteration use_pose f32 tc ?s1 = Inr (Continue s') \<and> \<not> is_recording s' \<and>
     current_sequence s' = [] \<and> disk s' = disk ?s1"
    by (rule iteration_cancel[OF cancel])
       (use few' ls in \<open>simp_all add: SEQUENCE_LENGTH_def del: captured.simps\<close>)
  then obtain s' where s': "iteration use_pose f32 tc ?s1 = Inr (Continue s')"
    "\<not> is_recording s'" "current_sequence s' = []" "disk s' = disk s"
    by auto
  have "run use_pose f32 (t0 # ts @ [tc]) s = Inr s'"
    by (simp only: run.simps st sum.case flow.case r1 s'(1))
  with s'(2-4) show ?thesis by blast
qed

text \<open>
  Claim C4, amended. From the idle state with a label set, the space key followed by
  exactly 30 frame ticks, each at least one sampling interval after the one before, ends
  in the idle state with an empty buffer and exactly one new file in the label's
  directory, an array of shape (30, 159), or (30, 126) without pose, that holds the 30
  feature vectors in order; no other directory changes. The directory must hold only
  samples named by their index. If instead the space key comes again in a pass by whose
  end fewer than 30 frames were captured, the capture of that pass included, the run ends
  idle with an empty buffer and the disk unchanged.
\<close>

theorem recorder_records_or_cancels:
  "(current_label s = Some l \<and> l \<noteq> [] \<and> \<not> is_recording s \<and> space_tick t0 \<and>
    list_all frame_tick ts \<and> length ts = 30 \<and> spaced (start_clock t0) ts \<and>
    fs_lookup (disk s) l \<noteq> Some File \<and>
    filter (\<lambda>f. endswith f ''.npy'') (map fst (label_files (disk s) l)) = map sample_name idx
    \<longrightarrow>
    (\<exists>s'. run use_pose f32 (t0 # ts) s = Inr s' \<and> \<not> is_recording s' \<and>
       current_sequence s' = [] \<and>
       label_files (disk s') l =
         label_files (disk s) l @
           [(sample_name (if idx = [] then 0 else Max (set idx) + 1),
             \<lparr>dtype = Float32, shape = [30, if use_pose then 159 else 126],
              data = concat (map (\<lambda>t. data (features_of use_pose f32 t)) ts)\<rparr>)] \<and>
       sample_name (if idx = [] then 0 else Max (set idx) + 1)
         \<notin> fst ` set (label_files (disk s) l) \<and>
       (\<forall>l'. l' \<noteq> l \<longrightarrow> label_files (disk s') l' = label_files (disk s) l'))) \<and>
   (current_label s = Some l \<and> l \<noteq> [] \<and> \<not> is_recording s \<and> space_tick t0 \<and>
    list_all frame_tick ts \<and> space_tick tc \<and> hands_ok (detected_hands tc) \<and>
    length (captured (start_clock t0) (ts @ [tc])) < 30
    \<longrightarrow>
    (\<exists>s'. run use_pose f32 (t0 # ts @ [tc]) s = Inr s' \<and> \<not> is_recording s' \<and>
       current_sequence s' = [] \<and> disk s' = disk s))"
  using recorded_sequence[of s l t0 ts idx use_pose f32]
        cancelled_sequence[of s l t0 ts tc use_pose f32]
  by blast

lemma frame_ticks_upt: "list_all frame_tick (map (tick_at 255) [m..<n])"
  by (simp add: list_all_iff frame_tick_def tick_at_def hands_ok_def)

lemma spaced_upt: "spaced (real m / 10) (map (tick_at k) [Suc m..<n])"
proof (induction "n - Suc m" arbitrary: m)
  case 0
  then show ?case by simp
next
  case (Suc d)
  then have "Suc m < n" and "d = n - Suc (Suc m)" by simp_all
  then show ?case
    using Suc(1)[of "Suc m"]
    by (simp add: upt_conv_Cons tick_at_def frame_delay_def FPS_TARGET_def field_simps)
qed

lemma length_captured: "length (captured c ts) \<le> length ts"
  by (induction ts arbitrary: c) (auto simp: le_SucI)

theorem recorder_records_or_cancels_witness:
  "(\<exists>s'. run True (\<lambda>v. v) (tick_at 32 0 # map (tick_at 255) [1..<31]) idle_a = Inr s' \<and>
        \<not> is_recording s' \<and> current_sequence s' = [] \<and>
        map (\<lambda>f. (fst f, shape (snd f))) (label_files (disk s') ''a'') =
          [(''0.npy'', [30, 159])]) \<and>
   (\<exists>s'. run True (\<lambda>v. v) (tick_at 32 0 # map (tick_at 255) [1..<6] @ [tick_at 32 6]) idle_a
           = Inr s' \<and>
        \<not> is_recording s' \<and> current_sequence s' = [] \<and> disk s' = None)"
proof -
  have lab: "current_label idle_a = Some ''a''" "''a'' \<noteq> []" "\<not> is_recording idle_a"
    "disk idle_a = None"
    by (simp_all add: idle_a_def)
  have start: "space_tick (tick_at 32 0)" "start_clock (tick_at 32 0) = real 0 / 10"
    by (simp_all add: space_tick_def tick_at_def)
  have sp: "spaced (start_clock (tick_at 32 0)) (map (tick_at 255) [1..<31])"
    unfolding start(2) using spaced_upt[of 0 255 31] by simp
  have dir: "fs_lookup (disk idle_a) ''a'' \<noteq> Some File"
    "filter (\<lambda>f. endswith f ''.npy'') (map fst (label_files (disk idle_a) ''a'')) =
       map sample_name []"
    by (simp_all add: lab(4) fs_lookup_def label_files_def)
  have n0: "sample_name 0 = ''0.npy''"
    by (simp add: sample_name_def py_str_def str_nat.simps digit_char_def)
  have cancel: "space_tick (tick_at 32 6)" "hands_ok (detected_hands (tick_at 32 6))"
    by (simp_all add: space_tick_def tick_at_def hands_ok_def)
  have few: "length (captured (start_clock (tick_at 32 0))
                (map (tick_at 255) [1..<6] @ [tick_at 32 6])) < 30"
    using length_captured[of "start_clock (tick_at 32 0)"
            "map (tick_at 255) [1..<6] @ [tick_at 32 6]"]
    by simp
  have len: "length (map (tick_at 255) [1..<31]) = 30" by simp
  note rec = recorder_records_or_cancels
         [of idle_a "''a''" "tick_at 32 0" "map (tick_at 255) [1..<31]" "[]" True "\<lambda>v. v",
          THEN conjunct1, THEN mp]
  have "\<exists>s'. run True (\<lambda>v. v) (tick_at 32 0 # map (tick_at 255) [1..<31]) idle_a = Inr s' \<and>
        \<not> is_recording s' \<and> current_sequence s' = [] \<and>
        label_files (disk s') ''a'' =
         label_files (disk idle_a) ''a'' @
           [(sample_name (if ([]::int list) = [] then 0 else Max (set []) + 1),
             \<lparr>dtype = Float32, shape = [30, if True then 159 else 126],
              data = concat (map (\<lambda>t. data (features_of True (\<lambda>v. v) t))
                        (map (tick_at 255) [1..<31]))\<rparr>)] \<and>
       sample_name (if ([]::int list) = [] then 0 else Max (set []) + 1)
         \<notin> fst ` set (label_files (disk idle_a) ''a'') \<and>
       (\<forall>l'. l' \<noteq> ''a'' \<longrightarrow> label_files (disk s') l' = label_files (disk idle_a) l')"
    by (rule rec) (intro conjI lab(1-3) start(1) frame_ticks_upt len sp dir)
  then obtain s1 where s1:
    "run True (\<lambda>v. v) (tick_at 32 0 # map (tick_at 255) [1..<31]) idle_a = Inr s1"
    "\<not> is_recording s1" "current_sequence s1 = []"
    "label_files (disk s1) ''a'' =
         label_files (disk idle_a) ''a'' @
           [(sample_name (if ([]::int list) = [] then 0 else Max (set []) + 1),
             \<lparr>dtype = Float32, shape = [30, if True then 159 else 126],
              data = concat (map (\<lambda>t. data (features_of True (\<lambda>v. v) t))
                        (map (tick_at 255) [1..<31]))\<rparr>)]"
    by blast
  have files: "map (\<lambda>f. (fst f, shape (snd f))) (label_files (disk s1) ''a'') =
          [(''0.npy'', [30, 159])]"
    unfolding s1(4) by (simp add: n0 label_files_def lab(4) fs_lookup_def)
  note can = recorder_records_or_cancels
         [where s = idle_a and l = "''a''" and ?t0.0 = "tick_at 32 0"
            and ts = "map (tick_at 255) [1..<6]" and tc = "tick_at 32 6"
            and use_pose = True and ?f32.0 = "\<lambda>v. v", THEN conjunct2, THEN mp]
  have "\<exists>s'. run True (\<lambda>v. v) (tick_at 32 0 # map (tick_at 255) [1..<6] @ [tick_at 32 6]) idle_a
           = Inr s' \<and>
        \<not> is_recording s' \<and> current_sequence s' = [] \<and> disk s' = disk idle_a"
    by (rule can) (intro conjI lab(1-3) start(1) frame_ticks_upt cancel few)
  then obtain s2 where s2:
    "run True (\<lambda>v. v) (tick_at 32 0 # map (tick_at 255) [1..<6] @ [tick_at 32 6]) idle_a = Inr s2"
    "\<not> is_recording s2" "current_sequence s2 = []" "disk s2 = disk idle_a"
    by blast
  from s1(1-3) files s2 lab(4) show ?thesis by (simp del: run.simps)
qed

lemma iteration_custom_label:
  assumes t: "ret t" "key t = 48" "hands_ok (detected_hands t)"
    and rec: "is_recording s"
    and g: "py_replace '' '' ''_'' (py_lower (py_strip (typed_line t))) = g" "g \<noteq> []"
    and few: "length (current_sequence s) + length (captured (last_frame_time s) [t])
                < SEQUENCE_LENGTH"
  shows "iteration use_pose f32 t s =
     Inr (Continue (s\<lparr>current_sequence :=
                        current_sequence s @
                          map (features_of use_pose f32) (captured (last_frame_time s) [t]),
                      last_frame_time := last_capture (last_frame_time s) [t],
                      frame_timestamp := frame_timestamp s + 33,
                      current_label := Some g\<rparr>))"
proof -
  note f = features_of_ok[OF t(3), of use_pose f32]
  have k: "key_handling t s' = Continue (s'\<lparr>current_label := Some g\<rparr>)" for s'
    using g by (simp add: key_handling_def t(2) Let_def)
  show ?thesis
  proof (cases "clock t - last_frame_time s \<ge> frame_delay")
    case True
    with few have "Suc (length (current_sequence s)) < SEQUENCE_LENGTH" by simp
    then show ?thesis
      using True rec t(1) f
      by (simp add: iteration_def recording_logic_def Let_def k)
  next
    case False
    then show ?thesis
      using rec t(1)
      by (simp add: iteration_def recording_logic_def Let_def k)
  qed
qed

lemma recording_completes:
  assumes lab: "current_label s = Some l"
    and rec: "is_recording s"
    and buf: "\<forall>a \<in> set (current_sequence s).
                shape a = [if use_pose then 159 else 126] \<and> dtype a = Float32"
    and ticks: "list_all frame_tick ts" "ts \<noteq> []"
               "length (current_sequence s) + length ts = 30"
               "spaced (last_frame_time s) ts"
    and dir: "fs_lookup (disk s) l \<noteq> Some File"
             "filter (\<lambda>f. endswith f ''.npy'') (map fst (label_files (disk s) l)) =
                map sample_name idx"
  shows "\<exists>s'. run use_pose f32 ts s = Inr s' \<and> \<not> is_recording s' \<and>
     current_sequence s' = [] \<and> current_label s' = Some l \<and>
     label_files (disk s') l =
       label_files (disk s) l @
         [(sample_name (if idx = [] then 0 else Max (set idx) + 1),
           \<lparr>dtype = Float32, shape = [30, if use_pose then 159 else 126],
            data = concat (map data (current_sequence s)) @
                   concat (map (\<lambda>t. data (features_of use_pose f32 t)) ts)\<rparr>)] \<and>
     (\<forall>l'. l' \<noteq> l \<longrightarrow> label_files (disk s') l' = label_files (disk s) l')"
proof -
  let ?feat = "features_of use_pose f32"
  obtain ts' t30 where ts: "ts = ts' @ [t30]"
    using ticks(2) by (cases ts rule: rev_cases) auto
  have l29: "length (current_sequence s) + length ts' = 29" using ticks(3) ts by simp
  have sp: "spaced (last_frame_time s) ts'"
    and gap: "clock t30 - (if ts' = [] then last_frame_time s else clock (last ts'))
                \<ge> frame_delay"
    using ticks(4) by (simp_all add: ts spaced_append)
  have ft: "list_all frame_tick ts'" "frame_tick t30" using ticks(1) by (simp_all add: ts)
  have cap: "captured (last_frame_time s) ts' = ts'" by (rule captured_spaced[OF sp])
  have lc: "last_capture (last_frame_time s) ts' =
              (if ts' = [] then last_frame_time s else clock (last ts'))"
    by (rule last_capture_spaced[OF sp])
  let ?s1 = "s\<lparr>current_sequence :=
            current_sequence s @ map ?feat (captured (last_frame_time s) ts'),
          last_frame_time := last_capture (last_frame_time s) ts',
          frame_timestamp := frame_timestamp s + 33 * length ts'\<rparr>"
  have r1: "run use_pose f32 (ts' @ [t30]) s = run use_pose f32 [t30] ?s1"
    by (rule run_frame_ticks[OF ft(1) rec]) (use l29 in \<open>simp add: cap SEQUENCE_LENGTH_def\<close>)
  have s1: "is_recording ?s1" using rec by simp
  let ?s2 = "?s1\<lparr>frame_timestamp := frame_timestamp ?s1 + 33,
                            current_sequence := current_sequence ?s1 @ [?feat t30],
                            last_frame_time := clock t30\<rparr>"
  have it: "iteration use_pose f32 t30 ?s1 =
     (case save_sequence ?s2 of Inl e \<Rightarrow> Inl e | Inr s2 \<Rightarrow> Inr (Continue s2))"
    by (rule iteration_last_frame[OF ft(2) s1])
       (use gap l29 in \<open>simp_all add: cap lc SEQUENCE_LENGTH_def del: if_split\<close>)
  have s2: "current_label ?s2 = Some l" "disk ?s2 = disk s"
    "current_sequence ?s2 = current_sequence s @ map ?feat ts"
    by (simp_all add: lab cap ts)
  have shapes: "\<forall>a \<in> set (current_sequence ?s2).
                  shape a = [if use_pose then 159 else 126] \<and> dtype a = Float32"
  proof
    fix a assume "a \<in> set (current_sequence ?s2)"
    then consider "a \<in> set (current_sequence s)" | t where "t \<in> set ts" "a = ?feat t"
      unfolding s2(3) by auto
    then show "shape a = [if use_pose then 159 else 126] \<and> dtype a = Float32"
    proof cases
      case 1
      with buf show ?thesis by blast
    next
      case 2
      with ticks(1) have "hands_ok (detected_hands t)"
        by (auto simp: list_all_iff frame_tick_def)
      from features_of_ok[OF this, of use_pose f32] 2(2)
      show ?thesis
        by (simp add: TOTAL_FEATURES_def HAND_FEATURES_def POSE_FEATURES_def
              POSE_LANDMARKS_COUNT_def)
    qed
  qed
  have ne: "current_sequence ?s2 \<noteq> []" unfolding s2(3) using ticks(2) by auto
  from save_sequence_new[of ?s2 l idx, OF s2(1) _ _ ne shapes] dir
  obtain s' where s': "save_sequence ?s2 = Inr s'" "\<not> is_recording s'"
     "current_sequence s' = []" "current_label s' = Some l"
     "label_files (disk s') l =
       label_files (disk ?s2) l @
         [(sample_name (if idx = [] then 0 else Max (set idx) + 1),
           \<lparr>dtype = Float32,
            shape = [length (current_sequence ?s2), if use_pose then 159 else 126],
            data = concat (map data (current_sequence ?s2))\<rparr>)]"
     "\<forall>l'. l' \<noteq> l \<longrightarrow> label_files (disk s') l' = label_files (disk ?s2) l'"
    unfolding s2(2) by blast
  have "run use_pose f32 ts s = Inr s'"
    by (simp only: run.simps sum.case flow.case ts r1 it s'(1))
  moreover have "length (current_sequence ?s2) = 30" unfolding s2(3) using ticks(3) by simp
  moreover have "concat (map data (current_sequence ?s2)) =
      concat (map data (current_sequence s)) @ concat (map (\<lambda>t. data (?feat t)) ts)"
    unfolding s2(3) by (simp add: comp_def)
  ultimately show ?thesis
    using s'(2-6) unfolding s2(2) by (intro exI[of _ s']) (simp del: if_split)
qed

lemma last_map_upt: "m < n \<Longrightarrow> last (map f [m..<n]) = f (n - 1)"
  by (cases n) simp_all

lemma letter_key_resets:
  assumes "97 \<le> key t" "key t \<le> 122" "key t \<noteq> 113" "key t \<noteq> 100" "key t \<noteq> 115"
  shows "key_handling t s =
     Continue (s\<lparr>current_label := Some [char_of (key t)], is_recording := False,
                 current_sequence := []\<rparr>)"
  using assms by (simp add: key_handling_def)

text \<open>
  Claim C6 fails on key 0. A recording is started under label a and ten frames are
  captured; in the next pass key 0 is pressed and the name hello is typed. The recording
  goes on, and after 30 frames the buffer, with the frames captured under label a, is
  saved as sample 0 of label hello; nothing is saved under a. The letter keys reset the
  recorder (\<open>letter_key_resets\<close>); the branch of key 0 sets the label only.
\<close>

theorem custom_label_mid_recording:
  "\<exists>s'. run True (\<lambda>v. v) relabel_run idle_a = Inr s' \<and>
        current_label s' = Some ''hello'' \<and>
        label_files (disk s') ''a'' = [] \<and>
        map (\<lambda>f. (fst f, shape (snd f))) (label_files (disk s') ''hello'') =
          [(''0.npy'', [30, 159])]"
proof -
  let ?feat = "features_of True (\<lambda>v. v)"
  let ?A = "map (tick_at 255) [1..<11]" and ?B = "map (tick_at 255) [12..<31]"
  let ?s0 = "idle_a\<lparr>frame_timestamp := frame_timestamp idle_a + 33, is_recording := True,
                      current_sequence := [], last_frame_time := start_clock (tick_at 32 0)\<rparr>"
  have st: "iteration True (\<lambda>v. v) (tick_at 32 0) idle_a = Inr (Continue ?s0)"
    by (rule iteration_start)
       (simp_all add: space_tick_def tick_at_def idle_a_def label_set_def)
  have t0: "start_clock (tick_at 32 0) = real 0 / 10" by (simp add: tick_at_def)
  have spA: "spaced (last_frame_time ?s0) ?A"
    using spaced_upt[of 0 255 11] by (simp add: t0)
  have capA: "captured (last_frame_time ?s0) ?A = ?A" by (rule captured_spaced[OF spA])
  have lcA: "last_capture (last_frame_time ?s0) ?A = real 10 / 10"
    using last_capture_spaced[OF spA] last_map_upt[of 1 11 "tick_at 255"]
    by (simp add: tick_at_def del: upt_Suc)
  let ?s1 = "?s0\<lparr>current_sequence :=
            current_sequence ?s0 @ map ?feat (captured (last_frame_time ?s0) ?A),
          last_frame_time := last_capture (last_frame_time ?s0) ?A,
          frame_timestamp := frame_timestamp ?s0 + 33 * length ?A\<rparr>"
  have r1: "run True (\<lambda>v. v) (?A @ relabel_tick # ?B) ?s0 =
            run True (\<lambda>v. v) (relabel_tick # ?B) ?s1"
    by (rule run_frame_ticks[OF frame_ticks_upt])
       (use capA in \<open>simp_all add: SEQUENCE_LENGTH_def del: upt_Suc\<close>)
  have s1: "is_recording ?s1" "current_sequence ?s1 = map ?feat ?A"
    "last_frame_time ?s1 = real 10 / 10" "disk ?s1 = None"
    using capA lcA by (simp_all add: idle_a_def del: upt_Suc)
  have rt: "ret relabel_tick" "key relabel_tick = 48" "hands_ok (detected_hands relabel_tick)"
    "clock relabel_tick = real 11 / 10"
    by (simp_all add: relabel_tick_def tick_at_def hands_ok_def)
  have g: "py_replace '' '' ''_'' (py_lower (py_strip (typed_line relabel_tick))) = ''hello''"
    by (simp add: relabel_tick_def py_strip_def py_lower_def is_space_def)
  have capr: "captured (last_frame_time ?s1) [relabel_tick] = [relabel_tick]"
    "last_capture (last_frame_time ?s1) [relabel_tick] = real 11 / 10"
    using s1(3) by (simp_all add: rt(4) frame_delay_def FPS_TARGET_def del: upt_Suc)
  let ?s2 = "?s1\<lparr>current_sequence :=
                        current_sequence ?s1 @
                          map ?feat (captured (last_frame_time ?s1) [relabel_tick]),
                      last_frame_time := last_capture (last_frame_time ?s1) [relabel_tick],
                      frame_timestamp := frame_timestamp ?s1 + 33,
                      current_label := Some ''hello''\<rparr>"
  have it: "iteration True (\<lambda>v. v) relabel_tick ?s1 = Inr (Continue ?s2)"
    by (rule iteration_custom_label[OF rt(1-3) s1(1) g])
       (use capr s1(2) in \<open>simp_all add: SEQUENCE_LENGTH_def del: upt_Suc\<close>)
  have s2: "current_label ?s2 = Some ''hello''" "is_recording ?s2"
    "current_sequence ?s2 = map ?feat (?A @ [relabel_tick])"
    "last_frame_time ?s2 = real 11 / 10" "disk ?s2 = None"
    using s1(1,2) capr by (simp_all add: idle_a_def del: upt_Suc)
  have buf: "\<forall>a \<in> set (current_sequence ?s2).
                shape a = [if True then 159 else 126] \<and> dtype a = Float32"
  proof
    fix a assume "a \<in> set (current_sequence ?s2)"
    then obtain t where t: "t \<in> set (?A @ [relabel_tick])" "a = ?feat t"
      unfolding s2(3) by auto
    then have "hands_ok (detected_hands t)"
      using rt(3) by (auto simp: tick_at_def hands_ok_def)
    from features_of_ok[OF this, of True "\<lambda>v. v"] t(2)
    show "shape a = [if True then 159 else 126] \<and> dtype a = Float32"
      by (simp add: TOTAL_FEATURES_def HAND_FEATURES_def POSE_FEATURES_def
            POSE_LANDMARKS_COUNT_def)
  qed
  have spB: "spaced (last_frame_time ?s2) ?B"
    unfolding s2(4) using spaced_upt[of 11 255 31] by simp
  have neB: "?B \<noteq> []" by simp
  have lenB: "length (current_sequence ?s2) + length ?B = 30" unfolding s2(3) by simp
  have dir: "fs_lookup (disk ?s2) ''hello'' \<noteq> Some File"
    "filter (\<lambda>f. endswith f ''.npy'') (map fst (label_files (disk ?s2) ''hello'')) =
       map sample_name []"
    unfolding s2(5) by (simp_all add: fs_lookup_def label_files_def)
  from recording_completes[OF s2(1,2) buf frame_ticks_upt neB lenB spB dir]
  obtain s' where s': "run True (\<lambda>v. v) ?B ?s2 = Inr s'" "current_label s' = Some ''hello''"
    "label_files (disk s') ''hello'' =
       label_files (disk ?s2) ''hello'' @
         [(sample_name (if ([]::int list) = [] then 0 else Max (set []) + 1),
           \<lparr>dtype = Float32, shape = [30, if True then 159 else 126],
            data = concat (map data (current_sequence ?s2)) @
                   concat (map (\<lambda>t. data (?feat t)) ?B)\<rparr>)]"
    "\<forall>l'. l' \<noteq> ''hello'' \<longrightarrow> label_files (disk s') l' = label_files (disk ?s2) l'"
    by blast
  have n0: "sample_name 0 = ''0.npy''"
    by (simp add: sample_name_def py_str_def str_nat.simps digit_char_def)
  have run: "run True (\<lambda>v. v) relabel_run idle_a = Inr s'"
    unfolding relabel_run_def
    by (simp only: run.simps st sum.case flow.case r1 it s'(1))
  have a: "label_files (disk s') ''a'' = []"
    using s'(4)[rule_format, of "''a''"]
    by (simp add: idle_a_def label_files_def fs_lookup_def)
  have h: "map (\<lambda>f. (fst f, shape (snd f))) (label_files (disk s') ''hello'') =
          [(''0.npy'', [30, 159])]"
    unfolding s'(3) by (simp add: n0 idle_a_def label_files_def fs_lookup_def)
  show ?thesis
    by (rule exI[of _ s']) (intro conjI run s'(2) a h)
qed

lemma iteration_space_last_frame:
  assumes "space_tick t" "hands_ok (detected_hands t)" "is_recording s"
    "clock t - last_frame_time s \<ge> frame_delay"
    "Suc (length (current_sequence s)) \<ge> SEQUENCE_LENGTH"
  shows "iteration use_pose f32 t s =
     (case save_sequence (s\<lparr>frame_timestamp := frame_timestamp s + 33,
                            current_sequence := current_sequence s @ [features_of use_pose f32 t],
                            last_frame_time := clock t\<rparr>) of
        Inl e \<Rightarrow> Inl e
      | Inr s2 \<Rightarrow> Inr (key_handling t s2))"
proof -
  from assms(1) have t: "ret t" by (simp add: space_tick_def)
  note f = features_of_ok[OF assms(2), of use_pose f32]
  show ?thesis
    using assms(3,4,5) t f
    by (simp add: iteration_def recording_logic_def Let_def split: sum.splits)
qed

text \<open>
  Claim C4 as stated fails for the cancel command after 29 ticks. Each pass runs the
  recording logic before it reads the key: when the space key is pressed in a pass that
  comes a sampling interval after the 29th frame, that pass captures the 30th frame and
  saves the sample, and the key then starts a new recording. One sample of shape
  (30, 159) is persisted and the recorder is recording again.
\<close>

theorem space_after_29_ticks_saves:
  "length (map (tick_at 255) [1..<30]) = 29 \<and>
   \<not> isl (run True (\<lambda>v. v) late_cancel_run idle_a) \<and>
   is_recording (projr (run True (\<lambda>v. v) late_cancel_run idle_a)) \<and>
   map (\<lambda>f. (fst f, shape (snd f)))
     (label_files (disk (projr (run True (\<lambda>v. v) late_cancel_run idle_a))) ''a'') =
     [(''0.npy'', [30, 159])]"
proof -
  let ?feat = "features_of True (\<lambda>v. v)"
  let ?A = "map (tick_at 255) [1..<30]" and ?tc = "tick_at 32 30"
  let ?s0 = "idle_a\<lparr>frame_timestamp := frame_timestamp idle_a + 33, is_recording := True,
                      current_sequence := [], last_frame_time := start_clock (tick_at 32 0)\<rparr>"
  have st: "iteration True (\<lambda>v. v) (tick_at 32 0) idle_a = Inr (Continue ?s0)"
    by (rule iteration_start)
       (simp_all add: space_tick_def tick_at_def idle_a_def label_set_def)
  have t0: "start_clock (tick_at 32 0) = real 0 / 10" by (simp add: tick_at_def)
  have spA: "spaced (last_frame_time ?s0) ?A"
    using spaced_upt[of 0 255 30] by (simp add: t0)
  have capA: "captured (last_frame_time ?s0) ?A = ?A" by (rule captured_spaced[OF spA])
  have lcA: "last_capture (last_frame_time ?s0) ?A = real 29 / 10"
    using last_capture_spaced[OF spA] last_map_upt[of 1 30 "tick_at 255"]
    by (simp add: tick_at_def del: upt_Suc)
  let ?s1 = "?s0\<lparr>current_sequence :=
            current_sequence ?s0 @ map ?feat (captured (last_frame_time ?s0) ?A),
          last_frame_time := last_capture (last_frame_time ?s0) ?A,
          frame_timestamp := frame_timestamp ?s0 + 33 * length ?A\<rparr>"
  have r1: "run True (\<lambda>v. v) (?A @ [?tc]) ?s0 = run True (\<lambda>v. v) [?tc] ?s1"
    by (rule run_frame_ticks[OF frame_ticks_upt])
       (use capA in \<open>simp_all add: SEQUENCE_LENGTH_def del: upt_Suc\<close>)
  have s1: "is_recording ?s1" "current_sequence ?s1 = map ?feat ?A"
    "last_frame_time ?s1 = real 29 / 10"
    using capA lcA by (simp_all add: idle_a_def del: upt_Suc)
  have tc: "space_tick ?tc" "hands_ok (detected_hands ?tc)" "clock ?tc = real 30 / 10"
    "key ?tc = 32"
    by (simp_all add: space_tick_def tick_at_def hands_ok_def)
  let ?s2 = "?s1\<lparr>frame_timestamp := frame_timestamp ?s1 + 33,
                            current_sequence := current_sequence ?s1 @ [?feat ?tc],
                            last_frame_time := clock ?tc\<rparr>"
  have it: "iteration True (\<lambda>v. v) ?tc ?s1 =
     (case save_sequence ?s2 of Inl e \<Rightarrow> Inl e | Inr s3 \<Rightarrow> Inr (key_handling ?tc s3))"
    by (rule iteration_space_last_frame[OF tc(1,2) s1(1)])
       (use s1(2,3) in \<open>simp_all add: tc(3) frame_delay_def FPS_TARGET_def
                           SEQUENCE_LENGTH_def del: upt_Suc\<close>)
  have s2: "current_label ?s2 = Some ''a''" "disk ?s2 = None"
    "current_sequence ?s2 = map ?feat (?A @ [?tc])"
    using s1(2) by (simp_all add: idle_a_def del: upt_Suc)
  have shapes: "\<forall>a \<in> set (current_sequence ?s2).
                  shape a = [159] \<and> dtype a = Float32"
  proof
    fix a assume "a \<in> set (current_sequence ?s2)"
    then obtain t where t: "t \<in> set (?A @ [?tc])" "a = ?feat t"
      unfolding s2(3) by auto
    then have "hands_ok (detected_hands t)"
      by (auto simp: tick_at_def hands_ok_def)
    from features_of_ok[OF this, of True "\<lambda>v. v"] t(2)
    show "shape a = [159] \<and> dtype a = Float32"
      by (simp add: TOTAL_FEATURES_def HAND_FEATURES_def POSE_FEATURES_def
            POSE_LANDMARKS_COUNT_def)
  qed
  have ne: "current_sequence ?s2 \<noteq> []" unfolding s2(3) by simp
  have len: "length (current_sequence ?s2) = 30" unfolding s2(3) by simp
  have dir: "fs_lookup (disk ?s2) ''a'' \<noteq> Some File"
    "filter (\<lambda>f. endswith f ''.npy'') (map fst (label_files (disk ?s2) ''a'')) =
       map sample_name []"
    unfolding s2(2) by (simp_all add: fs_lookup_def label_files_def)
  from save_sequence_new[OF s2(1) dir ne shapes]
  obtain s3 where s3: "save_sequence ?s2 = Inr s3" "\<not> is_recording s3"
     "current_label s3 = Some ''a''"
     "label_files (disk s3) ''a'' =
       label_files (disk ?s2) ''a'' @
         [(sample_name (if ([]::int list) = [] then 0 else Max (set []) + 1),
           \<lparr>dtype = Float32, shape = [length (current_sequence ?s2), 159],
            data = concat (map data (current_sequence ?s2))\<rparr>)]"
    by blast
  let ?s4 = "s3\<lparr>is_recording := True, current_sequence := [],
                 last_frame_time := start_clock ?tc\<rparr>"
  have kh: "key_handling ?tc s3 = Continue ?s4"
    using s3(2,3) by (simp add: key_handling_def tc(4) label_set_def)
  have run: "run True (\<lambda>v. v) late_cancel_run idle_a = Inr ?s4"
    unfolding late_cancel_run_def
    by (simp only: run.simps st sum.case flow.case r1 it s3(1) kh)
  have n0: "sample_name 0 = ''0.npy''"
    by (simp add: sample_name_def py_str_def str_nat.simps digit_char_def)
  have files: "map (\<lambda>f. (fst f, shape (snd f))) (label_files (disk ?s4) ''a'') =
     [(''0.npy'', [30, 159])]"
    using s3(4) unfolding len s2(2)
    by (simp add: n0 label_files_def fs_lookup_def)
  show ?thesis
    unfolding run using files by simp
qed

subsection \<open>Dataset Loader\<close>

lemma fold_load_file:
  "fold (\<lambda>p. load_file (fst p) (snd p)) ps (S, L, N) =
     (S @ map snd (filter (\<lambda>p. accepted (snd p)) ps),
      L @ map fst (filter (\<lambda>p. accepted (snd p)) ps),
      (case N of
         Some n \<Rightarrow> Some n
       | None \<Rightarrow> map_option (\<lambda>a. shape a ! 1)
                   (List.find (\<lambda>a. length (shape a) = 2) (map snd ps))))"
proof (induction ps arbitrary: S L N)
  case Nil
  then show ?case by (simp split: option.splits)
next
  case (Cons p ps)
  have step: "load_file (fst p) (snd p) (S, L, N) =
     (if accepted (snd p) then S @ [snd p] else S,
      if accepted (snd p) then L @ [fst p] else L,
      if N = None \<and> length (shape (snd p)) = 2 then Some (shape (snd p) ! 1) else N)"
    by (simp add: load_file_def accepted_def SEQUENCE_LENGTH_def Let_def)
  define S' where "S' = (if accepted (snd p) then S @ [snd p] else S)"
  define L' where "L' = (if accepted (snd p) then L @ [fst p] else L)"
  define N' where
    "N' = (if N = None \<and> length (shape (snd p)) = 2 then Some (shape (snd p) ! 1) else N)"
  have "fold (\<lambda>p. load_file (fst p) (snd p)) (p # ps) (S, L, N) =
        fold (\<lambda>p. load_file (fst p) (snd p)) ps (S', L', N')"
    by (simp add: step S'_def L'_def N'_def)
  also have "\<dots> =
     (S' @ map snd (filter (\<lambda>p. accepted (snd p)) ps),
      L' @ map fst (filter (\<lambda>p. accepted (snd p)) ps),
      (case N' of
         Some n \<Rightarrow> Some n
       | None \<Rightarrow> map_option (\<lambda>a. shape a ! 1)
                   (List.find (\<lambda>a. length (shape a) = 2) (map snd ps))))"
    by (rule Cons.IH)
  also have "\<dots> =
     (S @ map snd (filter (\<lambda>p. accepted (snd p)) (p # ps)),
      L @ map fst (filter (\<lambda>p. accepted (snd p)) (p # ps)),
      (case N of
         Some n \<Rightarrow> Some n
       | None \<Rightarrow> map_option (\<lambda>a. shape a ! 1)
                   (List.find (\<lambda>a. length (shape a) = 2) (map snd (p # ps)))))"
    by (cases N) (simp_all add: S'_def L'_def N'_def)
  finally show ?case .
qed

lemma load_label_files_of:
  "load_label entries label st = fold (\<lambda>p. load_file (fst p) (snd p)) (files_of entries label) st"
  by (simp add: load_label_def files_of_def fold_map comp_def split: option.splits node.splits)

lemma fold_load_label:
  "fold (load_label entries) labels st =
     fold (\<lambda>p. load_file (fst p) (snd p)) (concat (map (files_of entries) labels)) st"
  by (induction labels arbitrary: st) (simp_all add: load_label_files_of)

lemma load_data_eq:
  "load_data fs =
     (if accepted_samples fs = [] then Inr None
      else (case np_array (map snd (accepted_samples fs)) of
              Inl e \<Rightarrow> Inl e
            | Inr X \<Rightarrow> Inr (Some (X, map fst (accepted_samples fs), detected_features fs))))"
proof (cases fs)
  case None
  then show ?thesis by (simp add: load_data_def accepted_samples_def loaded_def)
next
  case (Some entries)
  have acc: "accepted_samples fs =
      filter (\<lambda>p. accepted (snd p))
        (concat (map (files_of entries) (py_sorted (map fst entries))))"
    by (simp add: accepted_samples_def loaded_def Some)
  have det: "detected_features fs =
      map_option (\<lambda>a. shape a ! 1)
        (List.find (\<lambda>a. length (shape a) = 2)
           (map snd (concat (map (files_of entries) (py_sorted (map fst entries))))))"
    by (simp add: detected_features_def loaded_def Some)
  have st: "fold (load_label entries) (py_sorted (map fst entries)) ([], [], None) =
      (map snd (accepted_samples fs), map fst (accepted_samples fs), detected_features fs)"
    unfolding acc det by (simp add: fold_load_label fold_load_file)
  show ?thesis
    unfolding load_data_def Some option.case st prod.case by simp
qed

lemma loaded_five_and_one:
  "loaded five_and_one =
     [(''a'', zeros2 30 159), (''a'', zeros2 30 159), (''a'', zeros2 10 159),
      (''a'', zeros2 30 159), (''a'', zeros2 30 159), (''a'', zeros2 30 159)]"
  by (simp add: loaded_def five_and_one_def py_sorted_def files_of_def npy_files_def
        endswith_def)

lemma loaded_two_widths:
  "loaded two_widths = [(''a'', zeros2 30 159), (''a'', zeros2 30 200)]"
  by (simp add: loaded_def two_widths_def py_sorted_def files_of_def npy_files_def
        endswith_def)

lemma loaded_wide_first:
  "loaded wide_first = [(''a'', zeros2 10 200), (''a'', zeros2 30 159), (''a'', zeros2 30 159)]"
  by (simp add: loaded_def wide_first_def py_sorted_def files_of_def npy_files_def
        endswith_def)

lemma accepted_zeros2: "accepted (zeros2 r c) \<longleftrightarrow> r = 30"
  by (simp add: accepted_def zeros2_def)

lemma shape_zeros2: "shape (zeros2 r c) = [r, c]"
  by (simp add: zeros2_def)

lemma np_array_same_shape:
  assumes "as \<noteq> []" "\<forall>a \<in> set as. shape a = sh"
  shows "\<exists>X. np_array as = Inr X \<and> shape X = length as # sh \<and>
              data X = concat (map data as)"
proof -
  obtain a rest where as: "as = a # rest" using assms(1) by (cases as) auto
  with assms(2) have "list_all (\<lambda>b. shape b = shape a) rest" "shape a = sh"
    by (auto simp: list_all_iff)
  then show ?thesis by (simp add: np_array_def as)
qed

text \<open>
  Claim C7 as stated fails: two samples of 30 rows each, one 159 and one 200 values
  wide, are both kept, and \<^verbatim>\<open>np.array\<close> cannot stack them: the loader raises instead
  of returning an array.
\<close>

theorem load_data_two_widths_raises:
  "map (\<lambda>p. shape (snd p)) (loaded two_widths) = [[30, 159], [30, 200]] \<and>
   load_data two_widths = Inl ValueError"
proof -
  have "accepted_samples two_widths = [(''a'', zeros2 30 159), (''a'', zeros2 30 200)]"
    by (simp add: accepted_samples_def loaded_two_widths accepted_zeros2)
  then have "load_data two_widths = Inl ValueError"
    by (simp add: load_data_eq np_array_def shape_zeros2)
  then show ?thesis by (simp add: loaded_two_widths shape_zeros2)
qed

text \<open>
  Claim C7, amended. The loader keeps exactly the arrays that have two dimensions and 30
  rows, and passes over all others without raising; it returns None exactly when it
  keeps none; and when all kept arrays have the same width \<open>W\<close> it returns them, in the
  order read, as one array of shape (kept, 30, W), with the parallel list of their labels
  and the detected feature count.
\<close>

theorem load_data_keeps_accepted:
  "(\<forall>p \<in> set (loaded fs).
      p \<in> set (accepted_samples fs) \<longleftrightarrow>
        length (shape (snd p)) = 2 \<and> shape (snd p) ! 0 = 30) \<and>
   (load_data fs = Inr None \<longleftrightarrow> accepted_samples fs = []) \<and>
   (accepted_samples fs \<noteq> [] \<and> (\<forall>p \<in> set (accepted_samples fs). shape (snd p) = [30, W])
    \<longrightarrow>
    (\<exists>X. load_data fs =
            Inr (Some (X, map fst (accepted_samples fs), detected_features fs)) \<and>
         shape X = [length (accepted_samples fs), 30, W] \<and>
         data X = concat (map (\<lambda>p. data (snd p)) (accepted_samples fs))))"
proof -
  have a: "\<forall>p \<in> set (loaded fs).
      p \<in> set (accepted_samples fs) \<longleftrightarrow>
        length (shape (snd p)) = 2 \<and> shape (snd p) ! 0 = 30"
    by (simp add: accepted_samples_def accepted_def)
  have b: "load_data fs = Inr None \<longleftrightarrow> accepted_samples fs = []"
    by (simp add: load_data_eq split: sum.splits)
  have c: "\<exists>X. load_data fs =
            Inr (Some (X, map fst (accepted_samples fs), detected_features fs)) \<and>
         shape X = [length (accepted_samples fs), 30, W] \<and>
         data X = concat (map (\<lambda>p. data (snd p)) (accepted_samples fs))"
    if ne: "accepted_samples fs \<noteq> []"
      and w: "\<forall>p \<in> set (accepted_samples fs). shape (snd p) = [30, W]"
  proof -
    from np_array_same_shape[of "map snd (accepted_samples fs)" "[30, W]"] ne w
    obtain X where X: "np_array (map snd (accepted_samples fs)) = Inr X"
      "shape X = length (map snd (accepted_samples fs)) # [30, W]"
      "data X = concat (map data (map snd (accepted_samples fs)))"
      by auto
    show ?thesis
      using X ne by (intro exI[of _ X]) (simp add: load_data_eq comp_def)
  qed
  from a b c show ?thesis by blast
qed

text \<open>
  The example of the spec: five samples of shape (30, 159) and one of shape (10, 159)
  load as five entries with detected feature count 159.
\<close>

theorem load_data_keeps_accepted_witness:
  "\<exists>X. load_data five_and_one = Inr (Some (X, [''a'', ''a'', ''a'', ''a'', ''a''], Some 159)) \<and>
       shape X = [5, 30, 159]"
proof -
  have acc: "accepted_samples five_and_one =
      [(''a'', zeros2 30 159), (''a'', zeros2 30 159), (''a'', zeros2 30 159),
       (''a'', zeros2 30 159), (''a'', zeros2 30 159)]"
    by (simp add: accepted_samples_def loaded_five_and_one accepted_zeros2)
  have det: "detected_features five_and_one = Some 159"
    by (simp add: detected_features_def loaded_five_and_one shape_zeros2)
  have hyp: "accepted_samples five_and_one \<noteq> [] \<and>
      (\<forall>p \<in> set (accepted_samples five_and_one). shape (snd p) = [30, 159])"
    by (simp add: acc shape_zeros2)
  have len: "length (accepted_samples five_and_one) = 5" by (simp add: acc)
  from load_data_keeps_accepted[of five_and_one 159, THEN conjunct2, THEN conjunct2,
         THEN mp, OF hyp]
  obtain X where "load_data five_and_one =
            Inr (Some (X, map fst (accepted_samples five_and_one),
                       detected_features five_and_one))"
    "shape X = [length (accepted_samples five_and_one), 30, 159]"
    by blast
  then have "load_data five_and_one =
      Inr (Some (X, [''a'', ''a'', ''a'', ''a'', ''a''], Some 159)) \<and> shape X = [5, 30, 159]"
    unfolding len det by (simp add: acc)
  then show ?thesis by blast
qed

text \<open>
  Claim C10. Whatever the loader returns, the feature count is the width of the first
  array with two dimensions that it reads, kept or not, and the samples are the kept
  arrays, whose widths no test compares. With a first file of shape (10, 200) followed
  by two samples of shape (30, 159), the loader returns the two samples and the feature
  count 200.
\<close>

theorem load_data_detects_first_width:
  "(load_data fs = Inr (Some (X, y, F)) \<longrightarrow>
      F = detected_features fs \<and> y = map fst (accepted_samples fs) \<and>
      np_array (map snd (accepted_samples fs)) = Inr X) \<and>
   loaded wide_first =
     [(''a'', zeros2 10 200), (''a'', zeros2 30 159), (''a'', zeros2 30 159)] \<and>
   (\<exists>X. load_data wide_first = Inr (Some (X, [''a'', ''a''], Some 200)) \<and>
        shape X = [2, 30, 159])"
proof -
  have gen: "F = detected_features fs \<and> y = map fst (accepted_samples fs) \<and>
      np_array (map snd (accepted_samples fs)) = Inr X"
    if "load_data fs = Inr (Some (X, y, F))"
    using that by (auto simp: load_data_eq split: if_splits sum.splits)
  have acc: "accepted_samples wide_first = [(''a'', zeros2 30 159), (''a'', zeros2 30 159)]"
    by (simp add: accepted_samples_def loaded_wide_first accepted_zeros2)
  have det: "detected_features wide_first = Some 200"
    by (simp add: detected_features_def loaded_wide_first shape_zeros2)
  have ex: "\<exists>X. load_data wide_first = Inr (Some (X, [''a'', ''a''], Some 200)) \<and>
        shape X = [2, 30, 159]"
    by (simp add: load_data_eq acc det np_array_def shape_zeros2)
  from gen loaded_wide_first ex show ?thesis by blast
qed

theorem load_data_detects_first_width_witness:
  "\<exists>X y F. load_data wide_first = Inr (Some (X, y, F)) \<and> F = Some 200 \<and>
     F = detected_features wide_first \<and>
     (\<forall>p \<in> set (accepted_samples wide_first). shape (snd p) ! 1 = 159)"
proof -
  from load_data_detects_first_width[of wide_first]
  obtain X where X: "load_data wide_first = Inr (Some (X, [''a'', ''a''], Some 200))"
    by blast
  from load_data_detects_first_width[of wide_first X "[''a'', ''a'']" "Some 200"] X
  have F: "Some 200 = detected_features wide_first" by blast
  have acc: "accepted_samples wide_first = [(''a'', zeros2 30 159), (''a'', zeros2 30 159)]"
    by (simp add: accepted_samples_def loaded_wide_first accepted_zeros2)
  have "\<forall>p \<in> set (accepted_samples wide_first). shape (snd p) ! 1 = 159"
    by (simp add: acc shape_zeros2)
  with X F show ?thesis by blast
qed

subsection \<open>Exporter\<close>

text \<open>
  Claim C5 as stated fails: with a config of 159 features and an exported graph that
  declares 20 features and that the checker rejects, the script finishes normally and
  the graph is in the public folder.
\<close>

theorem convert_main_publishes_before_verifying:
  "\<not> spec_shapes_match config_159 graph_20 \<and>
   \<not> verify_exported mismatched_export (snd (convert_main mismatched_export trained_files)) \<and>
   fst (convert_main mismatched_export trained_files) = Finished \<and>
   public_lstm_model_onnx (snd (convert_main mismatched_export trained_files)) = Some graph_20"
  by (simp add: convert_main_def embed_external_data_def verify_exported_def
        spec_shapes_match_def config_159_def trained_files_def graph_20_def
        mismatched_export_def Let_def)

text \<open>
  Claim C5, amended. When the config, the weights and the label list are in place and the
  weights fit the model, the script finishes and the public folder holds the exported
  graph, the labels and the config, whatever shapes the graph declares and whatever the
  verification finds: the copy comes before the verification, which compares nothing
  with the config and only prints.
\<close>

theorem convert_main_publishes:
  assumes "model_config_json fs = Some config" "sign_model_pt fs" "weights_fit env"
    "labels_json fs = Some ls"
  shows "fst (convert_main env fs) = Finished \<and>
     public_lstm_model_onnx (snd (convert_main env fs)) = Some (exported env) \<and>
     public_lstm_labels_json (snd (convert_main env fs)) = Some ls \<and>
     public_lstm_config_json (snd (convert_main env fs)) = Some config"
  using assms
  by (simp add: convert_main_def embed_external_data_def Let_def)

theorem convert_main_publishes_witness:
  "model_config_json trained_files = Some config_159 \<and> sign_model_pt trained_files \<and>
   weights_fit mismatched_export \<and> labels_json trained_files = Some [''a'', ''b''] \<and>
   fst (convert_main mismatched_export trained_files) = Finished \<and>
   public_lstm_model_onnx (snd (convert_main mismatched_export trained_files)) =
     Some graph_20"
proof -
  have h: "model_config_json trained_files = Some config_159" "sign_model_pt trained_files"
    "weights_fit mismatched_export" "labels_json trained_files = Some [''a'', ''b'']"
    by (simp_all add: trained_files_def mismatched_export_def)
  from convert_main_publishes[OF h] h show ?thesis
    by (simp add: mismatched_export_def)
qed

subsection \<open>Training checkpoints\<close>

lemma epoch_loop_no_improvement:
  assumes "\<forall>e \<in> set es. snd e \<le> best_val_acc st"
  shows "best_pt (epoch_loop es st) = best_pt st \<and>
         best_val_acc (epoch_loop es st) = best_val_acc st"
  using assms
proof (induction es arbitrary: st)
  case Nil
  then show ?case by simp
next
  case (Cons e es)
  obtain w a where e: "e = (w, a)" by (cases e)
  with Cons.prems have a: "\<not> a > best_val_acc st" by auto
  let ?st2 = "st\<lparr>model := w, patience_counter := patience_counter st + 1\<rparr>"
  have "\<forall>e \<in> set es. snd e \<le> best_val_acc ?st2" using Cons.prems by simp
  from Cons.IH[OF this] show ?case
    using a by (simp add: e Let_def)
qed

text \<open>
  Claim C9 fails when no epoch has a validation accuracy above 0: the comparison
  \<^verbatim>\<open>val_acc > best_val_acc\<close> starts from 0, so no checkpoint is written. The final
  model file then holds the weights of a checkpoint left by an earlier run (weights 0,
  which are none of this run's), and without such a file the reload raises and no final
  model is written.
\<close>

theorem zero_accuracy_keeps_old_checkpoint:
  "train_and_save 0 (Some 0) zero_accuracy_run = Inr 0 \<and>
   0 \<notin> fst ` set zero_accuracy_run \<and>
   train_and_save 0 None zero_accuracy_run = Inl FileNotFoundError"
proof -
  have le: "\<forall>e \<in> set (take EPOCHS zero_accuracy_run).
              snd e \<le> best_val_acc \<lparr>model = 0::nat, best_val_acc = 0, patience_counter = 0,
                                     best_pt = existing\<rparr>" for existing
    by (auto simp: zero_accuracy_run_def dest!: in_set_takeD)
  have "best_pt (epoch_loop (take EPOCHS zero_accuracy_run)
                  \<lparr>model = 0, best_val_acc = 0, patience_counter = 0, best_pt = existing\<rparr>)
          = existing" for existing
    using epoch_loop_no_improvement[OF le[of existing]] by simp
  then have "train_and_save 0 (Some 0) zero_accuracy_run = Inr 0"
    "train_and_save 0 None zero_accuracy_run = Inl FileNotFoundError"
    by (simp_all add: train_and_save_def Let_def)
  moreover have "0 \<notin> fst ` set zero_accuracy_run"
    by (auto simp: zero_accuracy_run_def)
  ultimately show ?thesis by simp
qed

end
